theory Spec2Isabelle
  imports Main "HOL-Library.Word" "HOL-Library.Sublist"
begin

section \<open>JavaScript strings\<close>

text \<open>
  A JavaScript string is a sequence of UTF-16 code units. Every letter the scraper looks
  at (Basic Latin, Cyrillic) is a single code unit, and \<open>url[0]\<close>, the regular
  expressions (no \<open>u\<close> flag) and \<open>replace\<close> all work on code units.
\<close>

type_synonym jschar = "16 word"
type_synonym jsstring = "jschar list"

definition ascii :: "string \<Rightarrow> jsstring" where
  "ascii s = map of_char s"

text \<open>A character class is a list of inclusive code-unit ranges.\<close>

type_synonym charclass = "(jschar \<times> jschar) list"

definition in_class :: "charclass \<Rightarrow> jschar \<Rightarrow> bool" where
  "in_class cs c = list_ex (\<lambda>(lo, hi). lo \<le> c \<and> c \<le> hi) cs"

text \<open>
  White space and line terminators of ECMAScript: TAB, LF, VT, FF, CR, SP, NBSP,
  U+1680, U+2000..U+200A, LS, PS, U+202F, U+205F, U+3000 and the BOM. This is the set
  of \<open>\s\<close> and the set \<open>trim\<close> strips.
\<close>

definition whitespace :: charclass where
  "whitespace =
     [(0x09, 0x0D), (0x20, 0x20), (0xA0, 0xA0), (0x1680, 0x1680), (0x2000, 0x200A),
      (0x2028, 0x2029), (0x202F, 0x202F), (0x205F, 0x205F), (0x3000, 0x3000),
      (0xFEFF, 0xFEFF)]"

definition trim :: "jsstring \<Rightarrow> jsstring" where
  "trim s = rev (dropWhile (in_class whitespace) (rev (dropWhile (in_class whitespace) s)))"

text \<open>
  \<open>s.replace(pat, rep)\<close> with a string pattern: the first occurrence of \<open>pat\<close>
  in \<open>s\<close>, wherever it starts, is replaced; a string without an occurrence is returned
  as it is. Both call sites pass the replacement \<open>''\<close>, which has no \<open>$\<close>
  substitution pattern.
\<close>

fun replace :: "jsstring \<Rightarrow> jsstring \<Rightarrow> jsstring \<Rightarrow> jsstring" where
  "replace [] pat rep = (if pat = [] then rep else [])"
| "replace (c # cs) pat rep =
     (if prefix pat (c # cs) then rep @ drop (length pat) (c # cs)
      else c # replace cs pat rep)"

section \<open>Regular expressions\<close>

text \<open>
  The fragment of ECMAScript patterns the source uses: character classes, sequence,
  alternation, the quantifier \<open>*\<close> (greedy when its flag is set, lazy otherwise),
  the greedy \<open>?\<close>, a negative lookahead and the end anchor; \<open>+\<close> is one
  occurrence followed by \<open>*\<close>. Capturing groups only group here: no pattern has a
  back-reference and only \<open>match[0]\<close> is read.
\<close>

datatype regex =
    Cls charclass
  | Seq regex regex
  | Alt regex regex
  | Star bool regex
  | Opt regex
  | NegLook regex
  | Eps
  | Eol

text \<open>
  \<open>ends r s\<close> lists, in the backtracking order of the ECMAScript matcher, the
  remainders of \<open>s\<close> after each way \<open>r\<close> can match a prefix of \<open>s\<close>. The
  first element is the match the engine commits to; the empty list is failure. An
  iteration of \<open>*\<close> or \<open>?\<close> that consumes nothing is rejected, as RepeatMatcher does.
\<close>

fun ends :: "regex \<Rightarrow> jsstring \<Rightarrow> jsstring list" where
  "ends (Cls cs) s = (case s of [] \<Rightarrow> [] | c # t \<Rightarrow> if in_class cs c then [t] else [])"
| "ends (Seq r1 r2) s = concat (map (ends r2) (ends r1 s))"
| "ends (Alt r1 r2) s = ends r1 s @ ends r2 s"
| "ends (Star greedy r) s =
     (let more = concat (map (ends (Star greedy r))
                   (filter (\<lambda>t. length t < length s) (ends r s)))
      in if greedy then more @ [s] else s # more)"
| "ends (Opt r) s = filter (\<lambda>t. length t < length s) (ends r s) @ [s]"
| "ends (NegLook r) s = (if ends r s = [] then [s] else [])"
| "ends Eps s = [s]"
| "ends Eol s = (if s = [] then [s] else [])"

text \<open>
  \<open>s.match(r)\<close> for a pattern without the \<open>g\<close> flag: the match is tried at index
  0, 1, ... up to the length of \<open>s\<close>; the result is \<open>match[0]\<close> of the first index
  that matches, or \<open>null\<close>.
\<close>

fun exec :: "regex \<Rightarrow> jsstring \<Rightarrow> jsstring option" where
  "exec r s =
     (case ends r s of
        e # _ \<Rightarrow> Some (take (length s - length e) s)
      | [] \<Rightarrow> (case s of [] \<Rightarrow> None | _ # t \<Rightarrow> exec r t))"

definition matches :: "regex \<Rightarrow> jsstring \<Rightarrow> bool" where
  "matches r s = (exec r s \<noteq> None)"

definition Plus :: "bool \<Rightarrow> regex \<Rightarrow> regex" where
  "Plus greedy r = Seq r (Star greedy r)"

definition Chr :: "jschar \<Rightarrow> regex" where
  "Chr c = Cls [(c, c)]"

fun seqs :: "regex list \<Rightarrow> regex" where
  "seqs [] = Eps"
| "seqs [r] = r"
| "seqs (r # rs) = Seq r (seqs rs)"

definition lit :: "string \<Rightarrow> regex" where
  "lit s = seqs (map (\<lambda>c. Chr (of_char c)) s)"

text \<open>The classes of the source's patterns.\<close>

definition lower :: charclass where
  "lower = [(0x61, 0x7A)]"

definition latin :: charclass where
  "latin = [(0x61, 0x7A), (0x41, 0x5A)]"

definition word_class :: charclass where
  "word_class = [(0x41, 0x5A), (0x61, 0x7A), (0x30, 0x39), (0x5F, 0x5F)]"

definition lower_hyphen_digit :: charclass where
  "lower_hyphen_digit = [(0x61, 0x7A), (0x2D, 0x2D), (0x30, 0x39)]"

definition lower_hyphen :: charclass where
  "lower_hyphen = [(0x61, 0x7A), (0x2D, 0x2D)]"

text \<open>
  U+0410..U+042F are the Cyrillic capitals A..YA, U+0430..U+044F the small letters
  a..ya, U+0451 is small io.
\<close>

definition cyrillic_hyphen :: charclass where
  "cyrillic_hyphen = [(0x410, 0x42F), (0x430, 0x44F), (0x451, 0x451), (0x2D, 0x2D)]"

definition cyrillic_space :: charclass where
  "cyrillic_space = [(0x410, 0x42F), (0x430, 0x44F), (0x451, 0x451)] @ whitespace"

section \<open>The page\<close>

text \<open>
  What the scraper reads of a document: its anchors in document order and the text of
  the first element matching each of the three selectors \<open>article h1\<close>,
  \<open>article p:nth-of-type(1)\<close> and \<open>article p:nth-of-type(2)\<close> (\<open>None\<close> when no
  element matches). A site maps a URL to the document \<open>page.goto\<close> loads, \<open>None\<close>
  when the navigation fails.
\<close>

record anchor =
  href :: jsstring
  textContent :: jsstring

record document =
  anchors :: "anchor list"
  article_h1 :: "jsstring option"
  article_p1 :: "jsstring option"
  article_p2 :: "jsstring option"

type_synonym site = "jsstring \<Rightarrow> document option"

text \<open>
  \<open>TypeError\<close>: a property read or method call on \<open>null\<close> or \<open>undefined\<close>.
  \<open>SelectorError\<close>: \<open>page.$eval\<close> found no element for its selector.
  \<open>NavigationError\<close>: \<open>page.goto\<close> failed.
\<close>

datatype error = TypeError | SelectorError | NavigationError

section \<open>Link discovery\<close>

definition leafPattern :: regex where
  "leafPattern =
     seqs [Chr 0x2F, NegLook (Alt (lit ''reference'') (lit ''en'')), Plus True (Cls lower),
           Chr 0x2F, Plus True (Cls word_class),
           Chr 0x2F, Plus False (Cls lower_hyphen_digit), Chr 0x2F, Eol]"

definition orderPattern :: regex where
  "orderPattern = seqs [lit ''reference'', Chr 0x2F, Plus True (Cls word_class), Chr 0x2F, Eol]"

definition familyPattern :: regex where
  "familyPattern =
     seqs [lit ''reference'', Chr 0x2F, Plus True (Cls word_class),
           Chr 0x2F, Plus True (Cls lower_hyphen), Chr 0x2F, Eol]"

definition anchorItem :: "anchor \<Rightarrow> jsstring option" where
  "anchorItem elem =
     (if matches leafPattern (href elem) then Some (href elem)
      else if matches orderPattern (href elem) then Some (textContent elem)
      else if matches familyPattern (href elem) then Some (textContent elem)
      else None)"

definition getItems :: "document \<Rightarrow> jsstring list" where
  "getItems page = [url. Some url \<leftarrow> map anchorItem (anchors page)]"

section \<open>Classification of a candidate\<close>

text \<open>
  \<open>toUpperCase\<close> is the Unicode case mapping of the JavaScript engine. The functions
  take it as a parameter, so that every result below holds whatever the mapping does.
  \<open>url[0]\<close> of the empty string is \<open>undefined\<close>, and calling a method on it throws.
\<close>

definition extractOrder :: "(jsstring \<Rightarrow> jsstring) \<Rightarrow> jsstring \<Rightarrow> jsstring option" where
  "extractOrder toUpperCase url = (if url = toUpperCase url then Some url else None)"

definition extractFamily ::
  "(jsstring \<Rightarrow> jsstring) \<Rightarrow> jsstring \<Rightarrow> error + jsstring option" where
  "extractFamily toUpperCase url =
     (case url of
        [] \<Rightarrow> Inl TypeError
      | c # _ \<Rightarrow> if [c] = toUpperCase [c] then Inr (Some url) else Inr None)"

text \<open>The truth value of a string or \<open>null\<close> in a condition: only the non-empty string is truthy.\<close>

definition truthy :: "jsstring option \<Rightarrow> bool" where
  "truthy v = (case v of None \<Rightarrow> False | Some s \<Rightarrow> s \<noteq> [])"

section \<open>Field extraction\<close>

definition regExpRusName :: regex where
  "regExpRusName =
     seqs [Plus True (Cls cyrillic_hyphen), Star True (Cls whitespace),
           Star True (Cls cyrillic_space),
           Opt (seqs [Chr 0x28, Plus True (Cls cyrillic_space), Chr 0x29])]"

definition regExpLatName :: regex where
  "regExpLatName = seqs [Plus True (Cls latin), Opt (Cls whitespace), Plus True (Cls latin)]"

definition extractRusName :: "document \<Rightarrow> error + jsstring" where
  "extractRusName page =
     (case article_h1 page of
        None \<Rightarrow> Inl SelectorError
      | Some title \<Rightarrow>
          (case exec regExpRusName title of
             None \<Rightarrow> Inl TypeError
           | Some m \<Rightarrow> Inr (trim m)))"

definition extractLatName :: "document \<Rightarrow> error + jsstring" where
  "extractLatName page =
     (case article_h1 page of
        None \<Rightarrow> Inl SelectorError
      | Some title \<Rightarrow>
          (case exec regExpLatName title of
             None \<Rightarrow> Inl TypeError
           | Some m \<Rightarrow> Inr (trim m)))"

text \<open>
  The two label literals: "Priznaki. " (U+041F U+0440 U+0438 U+0437 U+043D U+0430 U+043A
  U+0438 U+002E U+0020) and "Mestoobitanie. ".
\<close>

definition signsLabel :: jsstring where
  "signsLabel = [0x41F, 0x440, 0x438, 0x437, 0x43D, 0x430, 0x43A, 0x438, 0x2E, 0x20]"

definition habitatLabel :: jsstring where
  "habitatLabel =
     [0x41C, 0x435, 0x441, 0x442, 0x43E, 0x43E, 0x431, 0x438, 0x442, 0x430, 0x43D, 0x438,
      0x435, 0x2E, 0x20]"

definition extractSigns :: "document \<Rightarrow> error + jsstring" where
  "extractSigns page =
     (case article_p1 page of
        None \<Rightarrow> Inl SelectorError
      | Some signs \<Rightarrow> Inr (replace signs signsLabel []))"

definition extractHabitat :: "document \<Rightarrow> error + jsstring" where
  "extractHabitat page =
     (case article_p2 page of
        None \<Rightarrow> Inl SelectorError
      | Some habitat \<Rightarrow> Inr (replace habitat habitatLabel []))"

section \<open>Traversal\<close>

text \<open>
  \<open>birdClassification\<close> is an object whose keys \<open>order\<close> and \<open>family\<close> are absent
  until assigned; a bird is the spread of it followed by the four extracted fields, so
  an absent key stays absent.
\<close>

record classification =
  order :: "jsstring option"
  family :: "jsstring option"

record bird = classification +
  rusName :: jsstring
  latName :: jsstring
  signs :: jsstring
  habitat :: jsstring

text \<open>
  The state of the loop of \<open>getBirdsData\<close>: the document the page shows, the URLs
  \<open>page.goto\<close> was called with (in order), and the two local objects.
\<close>

record state =
  page :: document
  gotoCalls :: "jsstring list"
  birdsData :: "bird list"
  birdClassification :: classification

datatype completion = Normal | Throw error

definition loopBody ::
  "(jsstring \<Rightarrow> jsstring) \<Rightarrow> site \<Rightarrow> state \<Rightarrow> jsstring \<Rightarrow> completion \<times> state" where
  "loopBody toUpperCase web st item =
     (let ord = extractOrder toUpperCase item in
      case extractFamily toUpperCase item of
        Inl e \<Rightarrow> (Throw e, st)
      | Inr fam \<Rightarrow>
          if truthy ord then
            (Normal, st\<lparr>birdClassification := (birdClassification st)\<lparr>order := ord\<rparr>\<rparr>)
          else if truthy fam then
            (Normal, st\<lparr>birdClassification := (birdClassification st)\<lparr>family := fam\<rparr>\<rparr>)
          else
            (case web item of
               None \<Rightarrow> (Throw NavigationError, st\<lparr>gotoCalls := gotoCalls st @ [item]\<rparr>)
             | Some doc \<Rightarrow>
                 (let st1 = st\<lparr>page := doc, gotoCalls := gotoCalls st @ [item]\<rparr> in
                  (case extractRusName doc of
                     Inl e \<Rightarrow> (Throw e, st1)
                   | Inr rus \<Rightarrow>
                  (case extractLatName doc of
                     Inl e \<Rightarrow> (Throw e, st1)
                   | Inr lat \<Rightarrow>
                  (case extractSigns doc of
                     Inl e \<Rightarrow> (Throw e, st1)
                   | Inr sg \<Rightarrow>
                  (case extractHabitat doc of
                     Inl e \<Rightarrow> (Throw e, st1)
                   | Inr hab \<Rightarrow>
                       (Normal, st1\<lparr>birdsData := birdsData st1 @
                          [\<lparr>order = order (birdClassification st1),
                            family = family (birdClassification st1),
                            rusName = rus, latName = lat, signs = sg,
                            habitat = hab\<rparr>]\<rparr>))))))))"

fun forOf ::
  "(jsstring \<Rightarrow> jsstring) \<Rightarrow> site \<Rightarrow> state \<Rightarrow> jsstring list \<Rightarrow> completion \<times> state" where
  "forOf toUpperCase web st [] = (Normal, st)"
| "forOf toUpperCase web st (item # items) =
     (case loopBody toUpperCase web st item of
        (Normal, st') \<Rightarrow> forOf toUpperCase web st' items
      | (Throw e, st') \<Rightarrow> (Throw e, st'))"

definition initial :: "document \<Rightarrow> state" where
  "initial listing =
     \<lparr>page = listing, gotoCalls = [], birdsData = [],
      birdClassification = \<lparr>order = None, family = None\<rparr>\<rparr>"

definition getBirdsData :: "(jsstring \<Rightarrow> jsstring) \<Rightarrow> site \<Rightarrow> document \<Rightarrow> error + bird list" where
  "getBirdsData toUpperCase web listing =
     (case forOf toUpperCase web (initial listing) (getItems listing) of
        (Normal, st) \<Rightarrow> Inr (birdsData st)
      | (Throw e, st) \<Rightarrow> Inl e)"

text \<open>
  The case mapping on the letters of the site, for evaluating the functions on concrete
  inputs: Basic Latin a..z, Cyrillic U+0430..U+044F (to U+0410..U+042F) and
  U+0450..U+045F (to U+0400..U+040F); every other code unit is kept.
\<close>

definition upperUnit :: "jschar \<Rightarrow> jschar" where
  "upperUnit c =
     (if 0x61 \<le> c \<and> c \<le> 0x7A then c - 0x20
      else if 0x430 \<le> c \<and> c \<le> 0x44F then c - 0x20
      else if 0x450 \<le> c \<and> c \<le> 0x45F then c - 0x50
      else c)"

definition upperBasic :: "jsstring \<Rightarrow> jsstring" where
  "upperBasic s = map upperUnit s"

section \<open>Kinds of candidates and the carried context\<close>

text \<open>
  The three branches of the loop body, named after what the traversal does with the
  candidate: an order marker takes the first branch, a family marker the second, a leaf
  is navigated to. The empty token is none of them (the body throws on it).
\<close>

definition isOrderMarker :: "(jsstring \<Rightarrow> jsstring) \<Rightarrow> jsstring \<Rightarrow> bool" where
  "isOrderMarker toUpperCase item = truthy (extractOrder toUpperCase item)"

definition isFamilyMarker :: "(jsstring \<Rightarrow> jsstring) \<Rightarrow> jsstring \<Rightarrow> bool" where
  "isFamilyMarker toUpperCase item =
     (\<not> truthy (extractOrder toUpperCase item) \<and>
      (case extractFamily toUpperCase item of Inl e \<Rightarrow> False | Inr fam \<Rightarrow> truthy fam))"

definition isLeaf :: "(jsstring \<Rightarrow> jsstring) \<Rightarrow> jsstring \<Rightarrow> bool" where
  "isLeaf toUpperCase item =
     (\<not> truthy (extractOrder toUpperCase item) \<and>
      (case extractFamily toUpperCase item of Inl e \<Rightarrow> False | Inr fam \<Rightarrow> \<not> truthy fam))"

text \<open>The last element of a list that satisfies a predicate, if there is one.\<close>

definition mostRecent :: "('a \<Rightarrow> bool) \<Rightarrow> 'a list \<Rightarrow> 'a option" where
  "mostRecent P xs = find P (rev xs)"

definition leafPositions :: "(jsstring \<Rightarrow> jsstring) \<Rightarrow> jsstring list \<Rightarrow> nat list" where
  "leafPositions toUpperCase items =
     filter (\<lambda>i. isLeaf toUpperCase (items ! i)) [0..<length items]"

definition contextOf :: "bird \<Rightarrow> jsstring option \<times> jsstring option" where
  "contextOf b = (order b, family b)"

text \<open>
  The same with a context to start from: \<open>carried P start xs\<close> is the most recent
  element of \<open>xs\<close> that satisfies \<open>P\<close>, and \<open>start\<close> when there is none.
  \<open>carriedContexts\<close> lists, for each leaf of a candidate list in order, the order and
  the family carried to it from the markers before it.
\<close>

definition carried :: "('a \<Rightarrow> bool) \<Rightarrow> 'a option \<Rightarrow> 'a list \<Rightarrow> 'a option" where
  "carried P start xs = (case mostRecent P xs of None \<Rightarrow> start | Some x \<Rightarrow> Some x)"

definition carriedContexts ::
  "(jsstring \<Rightarrow> jsstring) \<Rightarrow> classification \<Rightarrow> jsstring list
     \<Rightarrow> (jsstring option \<times> jsstring option) list" where
  "carriedContexts toUpperCase start items =
     map (\<lambda>i. (carried (isOrderMarker toUpperCase) (order start) (take i items),
                carried (isFamilyMarker toUpperCase) (family start) (take i items)))
       (leafPositions toUpperCase items)"

section \<open>Sample data\<close>

text \<open>
  Tokens and pages of the shape the site serves, used to run the functions. The Cyrillic
  strings are given by their code units: an order heading in capitals
  ("POGANKOOBRAZNYE"), a family heading with an initial capital ("Pogankovye"), a label
  in small letters ("poganki"), a species heading ("Chomga Podiceps cristatus") and the
  two paragraphs of a species page.
\<close>

definition orderToken :: jsstring where
  "orderToken =
     [0x41F, 0x41E, 0x413, 0x410, 0x41D, 0x41A, 0x41E, 0x41E, 0x411, 0x420, 0x410, 0x417,
      0x41D, 0x42B, 0x415]"

definition familyToken :: jsstring where
  "familyToken = [0x41F, 0x43E, 0x433, 0x430, 0x43D, 0x43A, 0x43E, 0x432, 0x44B, 0x435]"

definition lowerToken :: jsstring where
  "lowerToken = [0x43F, 0x43E, 0x433, 0x430, 0x43D, 0x43A, 0x438]"

definition leafUrl :: jsstring where
  "leafUrl = ascii ''https://birds.peipsi.org/poganki/chomga/bolshaya-poganka/''"

definition otherUrl :: jsstring where
  "otherUrl = ascii ''https://birds.peipsi.org/poganki/chomga/seroshchekaya/''"

definition chomga :: jsstring where
  "chomga = [0x427, 0x43E, 0x43C, 0x433, 0x430]"

definition chomgaHeading :: jsstring where
  "chomgaHeading = chomga @ [0x20] @ ascii ''Podiceps cristatus''"

definition signsText :: jsstring where
  "signsText =
     [0x41A, 0x440, 0x443, 0x43F, 0x43D, 0x430, 0x44F, 0x20, 0x43F, 0x442, 0x438, 0x446,
      0x430, 0x20, 0x441, 0x20, 0x445, 0x43E, 0x445, 0x43E, 0x43B, 0x43A, 0x43E, 0x43C,
      0x2E]"

definition habitatText :: jsstring where
  "habitatText = [0x41E, 0x437, 0x435, 0x440, 0x430, 0x2E]"

definition leafDoc :: document where
  "leafDoc =
     \<lparr>anchors = [], article_h1 = Some chomgaHeading,
      article_p1 = Some (signsLabel @ signsText),
      article_p2 = Some (habitatLabel @ habitatText)\<rparr>"

definition brokenDoc :: document where
  "brokenDoc = leafDoc\<lparr>article_p2 := None\<rparr>"

definition noDoc :: document where
  "noDoc = \<lparr>anchors = [], article_h1 = None, article_p1 = None, article_p2 = None\<rparr>"

definition chomgaBird :: "jsstring option \<Rightarrow> jsstring option \<Rightarrow> bird" where
  "chomgaBird ord fam =
     \<lparr>order = ord, family = fam, rusName = chomga,
      latName = ascii ''Podiceps cristatus'', signs = signsText, habitat = habitatText\<rparr>"

text \<open>
  Three sites: nothing can be reached; every URL shows the species page; one URL shows
  the species page and every other URL a page without its second paragraph.
\<close>

definition deadSite :: site where
  "deadSite url = None"

definition goodSite :: site where
  "goodSite url = Some leafDoc"

definition brokenSite :: site where
  "brokenSite url = (if url = otherUrl then Some leafDoc else Some brokenDoc)"

definition emptyState :: state where
  "emptyState = initial noDoc"

text \<open>A heading anchor without visible text, and a listing page that holds only it.\<close>

definition headingAnchor :: anchor where
  "headingAnchor =
     \<lparr>href = ascii ''https://birds.peipsi.org/reference/poganki/'', textContent = []\<rparr>"

definition listingDoc :: document where
  "listingDoc = noDoc\<lparr>anchors := [headingAnchor]\<rparr>"

text \<open>A species page whose paragraphs carry their label after two other characters.\<close>

definition midLabelDoc :: document where
  "midLabelDoc =
     noDoc\<lparr>article_p1 := Some ([0x58, 0x20] @ signsLabel @ [0x59]),
           article_p2 := Some ([0x58, 0x20] @ habitatLabel @ [0x59])\<rparr>"

text \<open>
  The structure the extraction expects of a species page: a heading in which both name
  patterns match, and a first and a second paragraph.
\<close>

definition wellFormed :: "document \<Rightarrow> bool" where
  "wellFormed doc =
     ((case article_h1 doc of
         None \<Rightarrow> False
       | Some title \<Rightarrow> matches regExpRusName title \<and> matches regExpLatName title)
      \<and> article_p1 doc \<noteq> None \<and> article_p2 doc \<noteq> None)"

text \<open>A candidate list: a leaf before any marker, then an order, a family and a leaf.\<close>

definition sampleItems :: "jsstring list" where
  "sampleItems = [otherUrl, orderToken, familyToken, leafUrl]"

definition sampleFinal :: state where
  "sampleFinal =
     \<lparr>page = leafDoc, gotoCalls = [otherUrl, leafUrl],
      birdsData = [chomgaBird None None, chomgaBird (Some orderToken) (Some familyToken)],
      birdClassification = \<lparr>order = Some orderToken, family = Some familyToken\<rparr>\<rparr>"

text \<open>A species page whose heading holds digits only.\<close>

definition digitsDoc :: document where
  "digitsDoc = noDoc\<lparr>article_h1 := Some (ascii ''123'')\<rparr>"

text \<open>Two anchors to three-segment paths: one below \<open>enot\<close>, one below \<open>poganki\<close>.\<close>

definition enotUrl :: jsstring where
  "enotUrl = ascii ''https://birds.peipsi.org/enot/vid/seryj-enot/''"

definition enotAnchor :: anchor where
  "enotAnchor = \<lparr>href = enotUrl, textContent = ascii ''Enot''\<rparr>"

definition leafAnchor :: anchor where
  "leafAnchor = \<lparr>href = leafUrl, textContent = ascii ''Chomga''\<rparr>"

section \<open>The loop\<close>

lemma forOf_append:
  "forOf up web st (xs @ ys) =
     (case forOf up web st xs of
        (Normal, st') \<Rightarrow> forOf up web st' ys
      | (Throw e, st') \<Rightarrow> (Throw e, st'))"
  by (induction xs arbitrary: st) (auto split: prod.splits completion.splits)

lemma loopBody_empty: "loopBody up web st [] = (Throw TypeError, st)"
  by (simp add: loopBody_def extractFamily_def)

lemma loopBody_order:
  assumes "item \<noteq> []" and "up item = item"
  shows "loopBody up web st item =
           (Normal, st\<lparr>birdClassification := (birdClassification st)\<lparr>order := Some item\<rparr>\<rparr>)"
  using assms
  by (cases item) (simp_all add: loopBody_def extractOrder_def extractFamily_def truthy_def Let_def)

lemma loopBody_family:
  assumes "up (c # cs) \<noteq> c # cs" and "up [c] = [c]"
  shows "loopBody up web st (c # cs) =
           (Normal, st\<lparr>birdClassification := (birdClassification st)\<lparr>family := Some (c # cs)\<rparr>\<rparr>)"
  using assms by (simp add: loopBody_def extractOrder_def extractFamily_def truthy_def)

lemma loopBody_leaf:
  assumes "up (c # cs) \<noteq> c # cs" and "up [c] \<noteq> [c]"
  shows "loopBody up web st (c # cs) =
     (case web (c # cs) of
        None \<Rightarrow> (Throw NavigationError, st\<lparr>gotoCalls := gotoCalls st @ [c # cs]\<rparr>)
      | Some doc \<Rightarrow>
          (case extractRusName doc of
             Inl e \<Rightarrow> (Throw e, st\<lparr>page := doc, gotoCalls := gotoCalls st @ [c # cs]\<rparr>)
           | Inr rus \<Rightarrow>
          (case extractLatName doc of
             Inl e \<Rightarrow> (Throw e, st\<lparr>page := doc, gotoCalls := gotoCalls st @ [c # cs]\<rparr>)
           | Inr lat \<Rightarrow>
          (case extractSigns doc of
             Inl e \<Rightarrow> (Throw e, st\<lparr>page := doc, gotoCalls := gotoCalls st @ [c # cs]\<rparr>)
           | Inr sg \<Rightarrow>
          (case extractHabitat doc of
             Inl e \<Rightarrow> (Throw e, st\<lparr>page := doc, gotoCalls := gotoCalls st @ [c # cs]\<rparr>)
           | Inr hab \<Rightarrow>
               (Normal, st\<lparr>page := doc, gotoCalls := gotoCalls st @ [c # cs],
                  birdsData := birdsData st @
                    [\<lparr>order = order (birdClassification st),
                      family = family (birdClassification st),
                      rusName = rus, latName = lat, signs = sg, habitat = hab\<rparr>]\<rparr>))))))"
  using assms
  by (simp add: loopBody_def extractOrder_def extractFamily_def truthy_def Let_def
      split: option.splits sum.splits)

lemma forOf_empty_token:
  "[] \<in> set items \<Longrightarrow> \<exists>e st'. forOf up web st items = (Throw e, st')"
proof (induction items arbitrary: st)
  case Nil
  then show ?case by simp
next
  case (Cons item items)
  show ?case
  proof (cases "loopBody up web st item")
    case (Pair c st1)
    show ?thesis
    proof (cases c)
      case Normal
      with Pair have "item \<noteq> []" by (auto simp: loopBody_empty)
      with Cons.prems have "[] \<in> set items" by auto
      from Cons.IH [OF this, of st1] Pair Normal show ?thesis by simp
    next
      case (Throw e)
      with Pair show ?thesis by simp
    qed
  qed
qed

lemma getItems_member:
  "a \<in> set (anchors listing) \<Longrightarrow> anchorItem a = Some url \<Longrightarrow> url \<in> set (getItems listing)"
  by (force simp: getItems_def)

lemma isLeaf_iff:
  "isLeaf up item \<longleftrightarrow> (\<exists>c cs. item = c # cs \<and> up (c # cs) \<noteq> c # cs \<and> up [c] \<noteq> [c])"
  by (cases item) (auto simp: isLeaf_def extractOrder_def extractFamily_def truthy_def)

lemma wellFormed_iff:
  "wellFormed doc \<longleftrightarrow>
     (\<exists>rus lat sg hab. extractRusName doc = Inr rus \<and> extractLatName doc = Inr lat
        \<and> extractSigns doc = Inr sg \<and> extractHabitat doc = Inr hab)"
  by (auto simp: wellFormed_def extractRusName_def extractLatName_def extractSigns_def
      extractHabitat_def matches_def split: option.splits)

lemma loopBody_leaf_malformed:
  assumes "up (c # cs) \<noteq> c # cs" and "up [c] \<noteq> [c]" and "web (c # cs) = Some doc"
    and "\<not> wellFormed doc"
  shows "\<exists>e. loopBody up web st (c # cs) =
           (Throw e, st\<lparr>page := doc, gotoCalls := gotoCalls st @ [c # cs]\<rparr>)"
  using assms(3,4) unfolding loopBody_leaf [where up=up, OF assms(1,2)] wellFormed_iff
  by (auto split: sum.splits)

section \<open>Order and family markers\<close>

text \<open>
  Claim C5. A candidate whose token is a non-empty string equal to its own upper-case
  form is an order marker: \<open>extractOrder\<close> returns the token, the loop body takes the
  order branch and never the family branch, the context's \<open>order\<close> becomes the token,
  its \<open>family\<close> is kept, and no page is visited and no record appended. (The empty
  token is the subject of claim C10.)
\<close>

theorem order_marker_sets_order:
  assumes "item \<noteq> []" and "toUpperCase item = item"
  shows "extractOrder toUpperCase item = Some item
       \<and> isOrderMarker toUpperCase item \<and> \<not> isFamilyMarker toUpperCase item
       \<and> loopBody toUpperCase web st item =
           (Normal, st\<lparr>birdClassification := (birdClassification st)\<lparr>order := Some item\<rparr>\<rparr>)
       \<and> order (birdClassification (snd (loopBody toUpperCase web st item))) = Some item
       \<and> family (birdClassification (snd (loopBody toUpperCase web st item))) =
           family (birdClassification st)
       \<and> gotoCalls (snd (loopBody toUpperCase web st item)) = gotoCalls st
       \<and> birdsData (snd (loopBody toUpperCase web st item)) = birdsData st"
  using assms
  by (simp add: loopBody_order extractOrder_def isOrderMarker_def isFamilyMarker_def truthy_def)

theorem order_marker_sets_order_witness:
  "orderToken \<noteq> [] \<and> upperBasic orderToken = orderToken
   \<and> loopBody upperBasic goodSite emptyState orderToken =
       (Normal, emptyState\<lparr>birdClassification := \<lparr>order = Some orderToken, family = None\<rparr>\<rparr>)
   \<and> gotoCalls (snd (loopBody upperBasic goodSite emptyState orderToken)) = []"
proof -
  have ne: "orderToken \<noteq> []"
    by (simp add: orderToken_def)
  have up: "upperBasic orderToken = orderToken"
    by (simp add: orderToken_def upperBasic_def upperUnit_def)
  from order_marker_sets_order [of orderToken upperBasic goodSite emptyState] ne up
  show ?thesis by (simp add: emptyState_def initial_def)
qed

text \<open>
  Claim C6. A token whose first code unit is its own upper-case form while the whole
  token is not is a family marker: \<open>extractFamily\<close> returns the token,
  \<open>extractOrder\<close> returns \<open>null\<close>, the context's \<open>family\<close> becomes the token,
  its \<open>order\<close> is kept, and no page is visited and no record appended.
\<close>

theorem family_marker_sets_family:
  assumes "toUpperCase [c] = [c]" and "toUpperCase (c # cs) \<noteq> c # cs"
  shows "extractFamily toUpperCase (c # cs) = Inr (Some (c # cs))
       \<and> extractOrder toUpperCase (c # cs) = None
       \<and> isFamilyMarker toUpperCase (c # cs)
       \<and> loopBody toUpperCase web st (c # cs) =
           (Normal, st\<lparr>birdClassification := (birdClassification st)\<lparr>family := Some (c # cs)\<rparr>\<rparr>)
       \<and> family (birdClassification (snd (loopBody toUpperCase web st (c # cs)))) = Some (c # cs)
       \<and> order (birdClassification (snd (loopBody toUpperCase web st (c # cs)))) =
           order (birdClassification st)
       \<and> gotoCalls (snd (loopBody toUpperCase web st (c # cs))) = gotoCalls st
       \<and> birdsData (snd (loopBody toUpperCase web st (c # cs))) = birdsData st"
  using assms
  by (simp add: loopBody_family extractOrder_def extractFamily_def isFamilyMarker_def truthy_def)

theorem family_marker_sets_family_witness:
  "upperBasic [hd familyToken] = [hd familyToken] \<and> upperBasic familyToken \<noteq> familyToken
   \<and> loopBody upperBasic goodSite emptyState familyToken =
       (Normal, emptyState\<lparr>birdClassification := \<lparr>order = None, family = Some familyToken\<rparr>\<rparr>)
   \<and> gotoCalls (snd (loopBody upperBasic goodSite emptyState familyToken)) = []"
proof -
  have hd: "upperBasic [0x41F] = [0x41F]"
    by (simp add: upperBasic_def upperUnit_def)
  have up: "upperBasic familyToken \<noteq> familyToken"
    by (simp add: familyToken_def upperBasic_def upperUnit_def)
  from family_marker_sets_family [of upperBasic "0x41F" "tl familyToken" goodSite emptyState] hd up
  show ?thesis by (simp add: familyToken_def emptyState_def initial_def)
qed

section \<open>The empty token\<close>

text \<open>
  Claim C10. A heading anchor (one whose \<open>href\<close> matches the second or third pattern
  and not the first) with empty text contributes the empty string to the candidate
  list. On the empty token \<open>extractOrder\<close> returns the empty string, which is falsy,
  and \<open>extractFamily\<close> throws a TypeError, so the loop body throws before any branch
  is taken: every traversal whose candidate list holds the empty token is aborted, with
  that TypeError when the candidates before it complete.
\<close>

theorem empty_token_aborts:
  assumes "a \<in> set (anchors listing)" and "textContent a = []"
    and "\<not> matches leafPattern (href a)"
    and "matches orderPattern (href a) \<or> matches familyPattern (href a)"
    and "toUpperCase [] = []"
  shows "[] \<in> set (getItems listing)
       \<and> extractOrder toUpperCase [] = Some [] \<and> \<not> truthy (extractOrder toUpperCase [])
       \<and> extractFamily toUpperCase [] = Inl TypeError
       \<and> loopBody toUpperCase web st [] = (Throw TypeError, st)
       \<and> (\<exists>e. getBirdsData toUpperCase web listing = Inl e)
       \<and> (\<forall>pre post st'. getItems listing = pre @ [] # post
             \<and> forOf toUpperCase web (initial listing) pre = (Normal, st')
           \<longrightarrow> forOf toUpperCase web (initial listing) (getItems listing) = (Throw TypeError, st')
               \<and> getBirdsData toUpperCase web listing = Inl TypeError)"
proof -
  from assms have "anchorItem a = Some []"
    by (auto simp: anchorItem_def)
  with assms(1) have mem: "[] \<in> set (getItems listing)"
    by (rule getItems_member)
  from forOf_empty_token [OF mem, of toUpperCase web "initial listing"]
  have abort: "\<exists>e. getBirdsData toUpperCase web listing = Inl e"
    by (auto simp: getBirdsData_def)
  have first: "forOf toUpperCase web (initial listing) (getItems listing) = (Throw TypeError, st')
               \<and> getBirdsData toUpperCase web listing = Inl TypeError"
    if "getItems listing = pre @ [] # post"
      and "forOf toUpperCase web (initial listing) pre = (Normal, st')" for pre post st'
    using that by (simp add: getBirdsData_def forOf_append loopBody_empty)
  from mem abort first assms(5) show ?thesis
    by (simp add: extractOrder_def extractFamily_def truthy_def loopBody_empty)
qed

theorem empty_token_aborts_witness:
  "headingAnchor \<in> set (anchors listingDoc) \<and> textContent headingAnchor = []
   \<and> \<not> matches leafPattern (href headingAnchor)
   \<and> matches orderPattern (href headingAnchor)
   \<and> upperBasic [] = []
   \<and> getItems listingDoc = [[]]
   \<and> getBirdsData upperBasic goodSite listingDoc = Inl TypeError"
proof -
  have a: "headingAnchor \<in> set (anchors listingDoc)" "textContent headingAnchor = []"
    by (simp_all add: listingDoc_def headingAnchor_def)
  have l: "\<not> matches leafPattern (href headingAnchor)"
    by code_simp
  have m: "matches orderPattern (href headingAnchor)"
    by code_simp
  have u: "upperBasic [] = []"
    by (simp add: upperBasic_def)
  have g: "getItems listingDoc = [[]]"
    by code_simp
  have i: "forOf upperBasic goodSite (initial listingDoc) [] = (Normal, initial listingDoc)"
    by simp
  from empty_token_aborts [of headingAnchor listingDoc upperBasic goodSite emptyState] a l m u
  have "\<forall>pre post st'. getItems listingDoc = pre @ [] # post
          \<and> forOf upperBasic goodSite (initial listingDoc) pre = (Normal, st')
        \<longrightarrow> forOf upperBasic goodSite (initial listingDoc) (getItems listingDoc) =
              (Throw TypeError, st')
            \<and> getBirdsData upperBasic goodSite listingDoc = Inl TypeError"
    by blast
  then have "getItems listingDoc = [] @ [] # []
          \<and> forOf upperBasic goodSite (initial listingDoc) [] = (Normal, initial listingDoc)
        \<longrightarrow> getBirdsData upperBasic goodSite listingDoc = Inl TypeError"
    by blast
  with a l m u g i show ?thesis by simp
qed


section \<open>Tokens that are neither order nor family markers\<close>

text \<open>
  Claim C2, as stated, fails: a lower-case label is not discarded. The loop has no
  discard branch; what is neither an order nor a family marker is passed to
  \<open>page.goto\<close>. On a site where the label cannot be reached the traversal aborts with
  the navigation error and the next candidate is never looked at; on a site where it
  can, a record is appended.
\<close>

theorem lowercase_token_discarded_counterexample:
  "lowerToken \<noteq> [] \<and> upperBasic lowerToken \<noteq> lowerToken
   \<and> upperBasic [hd lowerToken] \<noteq> [hd lowerToken]
   \<and> loopBody upperBasic deadSite emptyState lowerToken =
       (Throw NavigationError, emptyState\<lparr>gotoCalls := [lowerToken]\<rparr>)
   \<and> forOf upperBasic deadSite emptyState [lowerToken, orderToken] =
       (Throw NavigationError, emptyState\<lparr>gotoCalls := [lowerToken]\<rparr>)
   \<and> loopBody upperBasic goodSite emptyState lowerToken =
       (Normal, emptyState\<lparr>page := leafDoc, gotoCalls := [lowerToken],
                  birdsData := [chomgaBird None None]\<rparr>)
   \<and> loopBody upperBasic goodSite emptyState lowerToken \<noteq> (Normal, emptyState)"
  by code_simp


text \<open>
  Claim C2, amended. A token whose first code unit is changed by \<open>toUpperCase\<close>
  (a small letter, say) and which is not its own upper-case form is treated as a leaf:
  the context is not updated, \<open>page.goto\<close> is called with the token, the traversal
  aborts when the navigation fails or the page is malformed, and one record carrying
  the current context is appended when the four extractions succeed. A token whose
  first code unit is kept by \<open>toUpperCase\<close> (a capital, but also a digit, a space or
  punctuation) is not covered here: it is a family marker, by claim C6.
\<close>

theorem lowercase_token_visited:
  assumes "toUpperCase (c # cs) \<noteq> c # cs" and "toUpperCase [c] \<noteq> [c]"
  shows "isLeaf toUpperCase (c # cs)
       \<and> birdClassification (snd (loopBody toUpperCase web st (c # cs))) = birdClassification st
       \<and> gotoCalls (snd (loopBody toUpperCase web st (c # cs))) = gotoCalls st @ [c # cs]
       \<and> (web (c # cs) = None \<longrightarrow>
            loopBody toUpperCase web st (c # cs) =
              (Throw NavigationError, st\<lparr>gotoCalls := gotoCalls st @ [c # cs]\<rparr>))
       \<and> (\<forall>doc. web (c # cs) = Some doc \<and> \<not> wellFormed doc \<longrightarrow>
            (\<exists>e. loopBody toUpperCase web st (c # cs) =
              (Throw e, st\<lparr>page := doc, gotoCalls := gotoCalls st @ [c # cs]\<rparr>)))
       \<and> (\<forall>doc rus lat sg hab.
            web (c # cs) = Some doc \<and> extractRusName doc = Inr rus
            \<and> extractLatName doc = Inr lat \<and> extractSigns doc = Inr sg
            \<and> extractHabitat doc = Inr hab \<longrightarrow>
            loopBody toUpperCase web st (c # cs) =
              (Normal, st\<lparr>page := doc, gotoCalls := gotoCalls st @ [c # cs],
                 birdsData := birdsData st @
                   [\<lparr>order = order (birdClassification st),
                     family = family (birdClassification st),
                     rusName = rus, latName = lat, signs = sg, habitat = hab\<rparr>]\<rparr>))"
proof -
  have leaf: "isLeaf toUpperCase (c # cs)"
    using assms by (auto simp: isLeaf_iff)
  have ctx: "birdClassification (snd (loopBody toUpperCase web st (c # cs))) = birdClassification st"
    unfolding loopBody_leaf [where up=toUpperCase, OF assms] by (simp split: option.splits sum.splits)
  have nav: "gotoCalls (snd (loopBody toUpperCase web st (c # cs))) = gotoCalls st @ [c # cs]"
    unfolding loopBody_leaf [where up=toUpperCase, OF assms] by (simp split: option.splits sum.splits)
  have bad: "\<exists>e. loopBody toUpperCase web st (c # cs) =
              (Throw e, st\<lparr>page := doc, gotoCalls := gotoCalls st @ [c # cs]\<rparr>)"
    if "web (c # cs) = Some doc" and "\<not> wellFormed doc" for doc
    using loopBody_leaf_malformed [where up=toUpperCase and web=web, OF assms that] .
  from leaf ctx nav bad show ?thesis
    by (simp add: loopBody_leaf [where up=toUpperCase, OF assms])
qed

theorem lowercase_token_visited_witness:
  "upperBasic lowerToken \<noteq> lowerToken \<and> upperBasic [hd lowerToken] \<noteq> [hd lowerToken]
   \<and> gotoCalls (snd (loopBody upperBasic deadSite emptyState lowerToken)) = [lowerToken]
   \<and> loopBody upperBasic deadSite emptyState lowerToken =
       (Throw NavigationError, emptyState\<lparr>gotoCalls := [lowerToken]\<rparr>)"
proof -
  have up: "upperBasic (0x43F # tl lowerToken) \<noteq> 0x43F # tl lowerToken"
    by (simp add: lowerToken_def upperBasic_def upperUnit_def)
  have hd: "upperBasic [0x43F] \<noteq> [0x43F]"
    by (simp add: upperBasic_def upperUnit_def)
  have web: "deadSite (0x43F # tl lowerToken) = None"
    by (simp add: deadSite_def)
  have tok: "0x43F # tl lowerToken = lowerToken"
    by (simp add: lowerToken_def)
  have st: "gotoCalls emptyState = []"
    by (simp add: emptyState_def initial_def)
  from lowercase_token_visited [where toUpperCase=upperBasic and web=deadSite and st=emptyState, OF up hd] web
  show ?thesis unfolding tok st using up hd by (simp add: lowerToken_def)
qed


section \<open>Malformed leaf pages\<close>

text \<open>
  Claim C9. When the candidates before a leaf complete and the page the leaf navigates
  to is malformed (a selector finds no element, or a name pattern has no match), the
  traversal throws at that leaf: the records are those collected before it, the last
  \<open>page.goto\<close> call is the one for that leaf, so no later candidate is processed, and
  \<open>getBirdsData\<close> returns no list. A page that lacks only its second paragraph throws
  the selector error.
\<close>

theorem malformed_leaf_aborts:
  assumes "items = pre @ item # post"
    and "forOf toUpperCase web st pre = (Normal, st1)"
    and "isLeaf toUpperCase item"
    and "web item = Some doc"
    and "\<not> wellFormed doc"
  shows "(\<exists>e. forOf toUpperCase web st items =
              (Throw e, st1\<lparr>page := doc, gotoCalls := gotoCalls st1 @ [item]\<rparr>))
       \<and> birdsData (snd (forOf toUpperCase web st items)) = birdsData st1
       \<and> birdClassification (snd (forOf toUpperCase web st items)) = birdClassification st1
       \<and> gotoCalls (snd (forOf toUpperCase web st items)) = gotoCalls st1 @ [item]
       \<and> (st = initial listing \<and> items = getItems listing \<longrightarrow>
            (\<exists>e. getBirdsData toUpperCase web listing = Inl e))
       \<and> (article_p2 doc = None \<and> (\<exists>rus. extractRusName doc = Inr rus)
            \<and> (\<exists>lat. extractLatName doc = Inr lat) \<and> (\<exists>sg. extractSigns doc = Inr sg) \<longrightarrow>
            forOf toUpperCase web st items =
              (Throw SelectorError, st1\<lparr>page := doc, gotoCalls := gotoCalls st1 @ [item]\<rparr>))"
proof -
  from assms(3) obtain c cs where item: "item = c # cs"
    and up: "toUpperCase (c # cs) \<noteq> c # cs" "toUpperCase [c] \<noteq> [c]"
    by (auto simp: isLeaf_iff)
  from assms(4) item have web: "web (c # cs) = Some doc" by simp
  from loopBody_leaf_malformed [where up=toUpperCase and web=web, OF up web assms(5), of st1]
  obtain e where body: "loopBody toUpperCase web st1 item =
      (Throw e, st1\<lparr>page := doc, gotoCalls := gotoCalls st1 @ [item]\<rparr>)"
    by (auto simp: item)
  have run: "forOf toUpperCase web st items =
      (Throw e, st1\<lparr>page := doc, gotoCalls := gotoCalls st1 @ [item]\<rparr>)"
    by (simp add: assms(1,2) forOf_append body)
  have p2: "e = SelectorError"
    if "article_p2 doc = None" and "extractRusName doc = Inr rus"
      and "extractLatName doc = Inr lat" and "extractSigns doc = Inr sg" for rus lat sg
    using body that web unfolding item loopBody_leaf [where up=toUpperCase, OF up]
    by (simp add: extractHabitat_def)
  from run p2 show ?thesis
    by (auto simp: getBirdsData_def)
qed

theorem malformed_leaf_aborts_witness:
  "isLeaf upperBasic leafUrl \<and> brokenSite leafUrl = Some brokenDoc \<and> \<not> wellFormed brokenDoc
   \<and> forOf upperBasic brokenSite emptyState [orderToken, otherUrl] =
       (Normal, emptyState\<lparr>page := leafDoc, gotoCalls := [otherUrl],
                  birdsData := [chomgaBird (Some orderToken) None],
                  birdClassification := \<lparr>order = Some orderToken, family = None\<rparr>\<rparr>)
   \<and> forOf upperBasic brokenSite emptyState [orderToken, otherUrl, leafUrl, otherUrl] =
       (Throw SelectorError,
        emptyState\<lparr>page := brokenDoc, gotoCalls := [otherUrl, leafUrl],
                  birdsData := [chomgaBird (Some orderToken) None],
                  birdClassification := \<lparr>order = Some orderToken, family = None\<rparr>\<rparr>)"
proof -
  let ?st1 = "emptyState\<lparr>page := leafDoc, gotoCalls := [otherUrl],
                  birdsData := [chomgaBird (Some orderToken) None],
                  birdClassification := \<lparr>order = Some orderToken, family = None\<rparr>\<rparr>"
  have items: "[orderToken, otherUrl, leafUrl, otherUrl] = [orderToken, otherUrl] @ leafUrl # [otherUrl]"
    by simp
  have pre: "forOf upperBasic brokenSite emptyState [orderToken, otherUrl] = (Normal, ?st1)"
    by code_simp
  have leaf: "isLeaf upperBasic leafUrl"
    by code_simp
  have web: "brokenSite leafUrl = Some brokenDoc"
    by code_simp
  have bad: "\<not> wellFormed brokenDoc"
    by (simp add: wellFormed_def brokenDoc_def)
  have ok: "article_p2 brokenDoc = None \<and> (\<exists>rus. extractRusName brokenDoc = Inr rus)
            \<and> (\<exists>lat. extractLatName brokenDoc = Inr lat)
            \<and> (\<exists>sg. extractSigns brokenDoc = Inr sg)"
  proof -
    have "extractRusName brokenDoc = Inr chomga" by code_simp
    moreover have "extractLatName brokenDoc = Inr (ascii ''Podiceps cristatus'')" by code_simp
    moreover have "extractSigns brokenDoc = Inr signsText" by code_simp
    ultimately show ?thesis by (simp add: brokenDoc_def)
  qed
  from malformed_leaf_aborts [where toUpperCase=upperBasic and web=brokenSite and listing=noDoc, OF items pre leaf web bad] ok
  have "forOf upperBasic brokenSite emptyState [orderToken, otherUrl, leafUrl, otherUrl] =
          (Throw SelectorError, ?st1\<lparr>page := brokenDoc, gotoCalls := gotoCalls ?st1 @ [leafUrl]\<rparr>)"
    by blast
  with pre leaf web bad show ?thesis by simp
qed

section \<open>The names in the heading\<close>

text \<open>
  Claim C7. For the heading "Chomga Podiceps cristatus" (the Russian name in Cyrillic)
  the Russian-name extraction returns "Chomga": the first match of the pattern is the
  name with the space after it, which \<open>trim\<close> removes. The Latin-name extraction
  returns "Podiceps cristatus", the first match of its pattern.
\<close>

theorem chomga_names:
  assumes "article_h1 doc = Some chomgaHeading"
  shows "extractRusName doc = Inr chomga
       \<and> extractLatName doc = Inr (ascii ''Podiceps cristatus'')
       \<and> exec regExpRusName chomgaHeading = Some (chomga @ [0x20])
       \<and> exec regExpLatName chomgaHeading = Some (ascii ''Podiceps cristatus'')"
proof -
  have rus: "exec regExpRusName chomgaHeading = Some (chomga @ [0x20])"
    by code_simp
  have lat: "exec regExpLatName chomgaHeading = Some (ascii ''Podiceps cristatus'')"
    by code_simp
  have t1: "trim (chomga @ [0x20]) = chomga"
    by code_simp
  have t2: "trim (ascii ''Podiceps cristatus'') = ascii ''Podiceps cristatus''"
    by code_simp
  from assms rus lat t1 t2 show ?thesis
    by (simp add: extractRusName_def extractLatName_def)
qed

theorem chomga_names_witness:
  "article_h1 leafDoc = Some chomgaHeading
   \<and> extractRusName leafDoc = Inr [0x427, 0x43E, 0x43C, 0x433, 0x430]
   \<and> extractLatName leafDoc =
       Inr [0x50, 0x6F, 0x64, 0x69, 0x63, 0x65, 0x70, 0x73, 0x20,
            0x63, 0x72, 0x69, 0x73, 0x74, 0x61, 0x74, 0x75, 0x73]"
proof -
  have h: "article_h1 leafDoc = Some chomgaHeading"
    by (simp add: leafDoc_def)
  from chomga_names [OF h] h show ?thesis
    by (simp add: chomga_def ascii_def)
qed


section \<open>The paragraph labels\<close>

lemma replace_prefix:
  "pat \<noteq> [] \<Longrightarrow> replace (pat @ rest) pat rep = rep @ rest"
  by (cases pat) simp_all

lemma replace_first:
  assumes "pat \<noteq> []"
    and "\<forall>k<length pre. \<not> prefix pat (drop k (pre @ pat @ post))"
  shows "replace (pre @ pat @ post) pat rep = pre @ rep @ post"
  using assms(2)
proof (induction pre)
  case Nil
  from assms(1) show ?case by (simp add: replace_prefix)
next
  case (Cons x pre)
  from Cons.prems have "\<not> prefix pat (x # pre @ pat @ post)"
    by (auto dest: spec [of _ 0])
  moreover have "\<forall>k<length pre. \<not> prefix pat (drop k (pre @ pat @ post))"
  proof (intro allI impI)
    fix k assume "k < length pre"
    with Cons.prems have "\<not> prefix pat (drop (Suc k) ((x # pre) @ pat @ post))"
      by (auto simp del: drop_Suc_Cons append_Cons)
    then show "\<not> prefix pat (drop k (pre @ pat @ post))" by simp
  qed
  ultimately show ?case using Cons.IH by simp
qed

lemma replace_none:
  "\<forall>k. \<not> prefix pat (drop k s) \<Longrightarrow> replace s pat rep = s"
proof (induction s)
  case Nil
  then have "pat \<noteq> []" by auto
  then show ?case by simp
next
  case (Cons x s)
  from Cons.prems have "\<not> prefix pat (x # s)"
    by (auto dest: spec [of _ 0])
  moreover have "\<forall>k. \<not> prefix pat (drop k s)"
  proof
    fix k
    from Cons.prems have "\<not> prefix pat (drop (Suc k) (x # s))" by blast
    then show "\<not> prefix pat (drop k s)" by simp
  qed
  ultimately show ?case using Cons.IH by simp
qed


text \<open>
  Claim C4, as stated, fails: a label that is not at the start of the paragraph is not
  left in place. \<open>replace\<close> with a string pattern removes the first occurrence
  wherever it starts: from "X " followed by the label and "Y" both extractions return
  "X Y".
\<close>

theorem label_only_leading_counterexample:
  "\<not> prefix signsLabel ([0x58, 0x20] @ signsLabel @ [0x59])
   \<and> article_p1 midLabelDoc = Some ([0x58, 0x20] @ signsLabel @ [0x59])
   \<and> extractSigns midLabelDoc = Inr [0x58, 0x20, 0x59]
   \<and> extractSigns midLabelDoc \<noteq> Inr ([0x58, 0x20] @ signsLabel @ [0x59])
   \<and> \<not> prefix habitatLabel ([0x58, 0x20] @ habitatLabel @ [0x59])
   \<and> article_p2 midLabelDoc = Some ([0x58, 0x20] @ habitatLabel @ [0x59])
   \<and> extractHabitat midLabelDoc = Inr [0x58, 0x20, 0x59]
   \<and> extractHabitat midLabelDoc \<noteq> Inr ([0x58, 0x20] @ habitatLabel @ [0x59])"
  by code_simp


text \<open>
  Claim C4, amended. The signs extraction removes the first occurrence of its label
  from the first paragraph, wherever it starts, and returns every other character as
  it is: a leading label is stripped and the rest returned untrimmed, a paragraph
  without the label is returned unchanged. The habitat extraction does the same with
  its label on the second paragraph.
\<close>

theorem label_first_occurrence_removed:
  "(article_p1 doc = Some para \<longrightarrow>
      (\<forall>rest. para = signsLabel @ rest \<longrightarrow> extractSigns doc = Inr rest)
    \<and> (\<forall>pre post. para = pre @ signsLabel @ post
          \<and> (\<forall>k<length pre. \<not> prefix signsLabel (drop k para))
        \<longrightarrow> extractSigns doc = Inr (pre @ post))
    \<and> ((\<forall>k. \<not> prefix signsLabel (drop k para)) \<longrightarrow> extractSigns doc = Inr para))
 \<and> (article_p2 doc = Some para \<longrightarrow>
      (\<forall>rest. para = habitatLabel @ rest \<longrightarrow> extractHabitat doc = Inr rest)
    \<and> (\<forall>pre post. para = pre @ habitatLabel @ post
          \<and> (\<forall>k<length pre. \<not> prefix habitatLabel (drop k para))
        \<longrightarrow> extractHabitat doc = Inr (pre @ post))
    \<and> ((\<forall>k. \<not> prefix habitatLabel (drop k para)) \<longrightarrow> extractHabitat doc = Inr para))"
proof -
  have s: "signsLabel \<noteq> []" and h: "habitatLabel \<noteq> []"
    by (simp_all add: signsLabel_def habitatLabel_def)
  show ?thesis
    using replace_prefix [OF s, of _ "[]"] replace_first [OF s, of _ _ "[]"]
      replace_none [of signsLabel para "[]"]
      replace_prefix [OF h, of _ "[]"] replace_first [OF h, of _ _ "[]"]
      replace_none [of habitatLabel para "[]"]
    by (auto simp: extractSigns_def extractHabitat_def)
qed

theorem label_first_occurrence_removed_witness:
  "article_p1 leafDoc = Some (signsLabel @ signsText)
   \<and> extractSigns leafDoc = Inr signsText
   \<and> article_p1 midLabelDoc = Some ([0x58, 0x20] @ signsLabel @ [0x59])
   \<and> extractSigns midLabelDoc = Inr ([0x58, 0x20] @ [0x59])"
proof -
  have p1: "article_p1 leafDoc = Some (signsLabel @ signsText)"
    by (simp add: leafDoc_def)
  have p2: "article_p1 midLabelDoc = Some ([0x58, 0x20] @ signsLabel @ [0x59])"
    by (simp add: midLabelDoc_def noDoc_def)
  have first: "\<forall>k<length [0x58, 0x20 :: jschar].
         \<not> prefix signsLabel (drop k ([0x58, 0x20] @ signsLabel @ [0x59]))"
    by (simp add: signsLabel_def less_Suc_eq)
  from label_first_occurrence_removed [of leafDoc "signsLabel @ signsText"] p1
  have a: "extractSigns leafDoc = Inr signsText"
    by blast
  from label_first_occurrence_removed [of midLabelDoc "[0x58, 0x20] @ signsLabel @ [0x59]"] p2 first
  have b: "extractSigns midLabelDoc = Inr ([0x58, 0x20] @ [0x59])"
    by blast
  from p1 p2 first a b show ?thesis by blast
qed

section \<open>The context carried to a leaf\<close>

lemma find_append:
  "find P (xs @ ys) = (case find P xs of None \<Rightarrow> find P ys | Some x \<Rightarrow> Some x)"
  by (induction xs) simp_all

lemma isOrderMarker_iff: "isOrderMarker up item \<longleftrightarrow> item \<noteq> [] \<and> up item = item"
  by (auto simp: isOrderMarker_def extractOrder_def truthy_def)

lemma isFamilyMarker_iff:
  "isFamilyMarker up item \<longleftrightarrow> (\<exists>c cs. item = c # cs \<and> up (c # cs) \<noteq> c # cs \<and> up [c] = [c])"
  by (cases item) (auto simp: isFamilyMarker_def extractOrder_def extractFamily_def truthy_def)

lemma kinds:
  "item = [] \<or> isOrderMarker up item \<or> isFamilyMarker up item \<or> isLeaf up item"
  by (cases item) (auto simp: isOrderMarker_iff isFamilyMarker_iff isLeaf_iff)

lemma mostRecent_Cons:
  "mostRecent P (x # xs) =
     (case mostRecent P xs of None \<Rightarrow> if P x then Some x else None | Some y \<Rightarrow> Some y)"
  by (simp add: mostRecent_def find_append split: option.splits)

lemma carried_Cons:
  "carried P start (x # xs) = carried P (if P x then Some x else start) xs"
  by (simp add: carried_def mostRecent_Cons split: option.splits)

lemma carried_Nil: "carried P start [] = start"
  by (simp add: carried_def mostRecent_def)

lemma carried_None: "carried P None xs = mostRecent P xs"
  by (simp add: carried_def split: option.splits)

lemma leafPositions_Cons:
  "leafPositions up (x # xs) =
     (if isLeaf up x then [0] else []) @ map Suc (leafPositions up xs)"
proof -
  have "[0..<length (x # xs)] = 0 # map Suc [0..<length xs]"
    by (simp add: upt_conv_Cons map_Suc_upt del: upt_Suc)
  then show ?thesis
    by (simp add: leafPositions_def filter_map o_def del: upt_Suc)
qed

lemma carriedContexts_Cons:
  "carriedContexts up start (x # xs) =
     (if isLeaf up x then [(order start, family start)] else []) @
     carriedContexts up
       (start\<lparr>order := (if isOrderMarker up x then Some x else order start),
              family := (if isFamilyMarker up x then Some x else family start)\<rparr>) xs"
  by (simp add: carriedContexts_def leafPositions_Cons carried_Cons carried_Nil o_def)

lemma loopBody_throw_birdsData:
  "loopBody up web st item = (Throw e, st1) \<Longrightarrow> birdsData st1 = birdsData st"
  using kinds [of item up]
  by (auto simp: loopBody_empty loopBody_order loopBody_family isOrderMarker_iff
      isFamilyMarker_iff isLeaf_iff loopBody_leaf split: option.splits sum.splits)

lemma loopBody_normal_contexts:
  assumes "loopBody up web st item = (Normal, st1)"
  shows "map contextOf (birdsData st1) @ carriedContexts up (birdClassification st1) items =
         map contextOf (birdsData st) @ carriedContexts up (birdClassification st) (item # items)"
  using kinds [of item up] assms
  by (auto simp: loopBody_empty loopBody_order loopBody_family isOrderMarker_iff
      isFamilyMarker_iff isLeaf_iff loopBody_leaf carriedContexts_Cons contextOf_def
      split: option.splits sum.splits)

lemma forOf_contexts:
  "forOf up web st items = (c, st') \<Longrightarrow>
     prefix (map contextOf (birdsData st'))
       (map contextOf (birdsData st) @ carriedContexts up (birdClassification st) items)
     \<and> (c = Normal \<longrightarrow>
          map contextOf (birdsData st') =
            map contextOf (birdsData st) @ carriedContexts up (birdClassification st) items)"
proof (induction items arbitrary: st)
  case Nil
  then show ?case by (auto simp: carriedContexts_def leafPositions_def)
next
  case (Cons item items)
  show ?case
  proof (cases "loopBody up web st item")
    case (Pair c1 st1)
    show ?thesis
    proof (cases c1)
      case Normal
      with Pair Cons.prems have "forOf up web st1 items = (c, st')" by simp
      from Cons.IH [OF this] loopBody_normal_contexts [of up web st item st1 items] Pair Normal
      show ?thesis by simp
    next
      case (Throw e)
      with Pair Cons.prems have "c = Throw e" "st' = st1" by simp_all
      with loopBody_throw_birdsData [of up web st item e st1] Pair Throw
      show ?thesis by simp
    qed
  qed
qed

lemma mostRecent_None_iff: "mostRecent P xs = None \<longleftrightarrow> (\<forall>x\<in>set xs. \<not> P x)"
  by (auto simp: mostRecent_def find_None_iff)

lemma mostRecent_Some:
  "mostRecent P xs = Some t \<longleftrightarrow>
     (\<exists>pre post. xs = pre @ t # post \<and> P t \<and> (\<forall>x\<in>set post. \<not> P x))"
proof (induction xs)
  case Nil
  then show ?case by (simp add: mostRecent_def)
next
  case (Cons x xs)
  show ?case
  proof (cases "mostRecent P xs")
    case None
    then have no: "\<forall>y\<in>set xs. \<not> P y" by (simp add: mostRecent_None_iff)
    have "(\<exists>pre post. x # xs = pre @ t # post \<and> P t \<and> (\<forall>y\<in>set post. \<not> P y))
          \<longleftrightarrow> (P x \<and> x = t)"
    proof
      assume "\<exists>pre post. x # xs = pre @ t # post \<and> P t \<and> (\<forall>y\<in>set post. \<not> P y)"
      then obtain pre post where eq: "x # xs = pre @ t # post" and t: "P t" by blast
      show "P x \<and> x = t"
      proof (cases pre)
        case Nil
        with eq t show ?thesis by simp
      next
        case (Cons a pre')
        with eq have "t \<in> set xs" by simp
        with no t show ?thesis by blast
      qed
    next
      assume "P x \<and> x = t"
      with no have "x # xs = [] @ t # xs \<and> P t \<and> (\<forall>y\<in>set xs. \<not> P y)" by auto
      then show "\<exists>pre post. x # xs = pre @ t # post \<and> P t \<and> (\<forall>y\<in>set post. \<not> P y)"
        by blast
    qed
    with None show ?thesis by (auto simp: mostRecent_Cons)
  next
    case (Some y)
    with Cons.IH have iff: "y = t \<longleftrightarrow>
        (\<exists>pre post. xs = pre @ t # post \<and> P t \<and> (\<forall>x\<in>set post. \<not> P x))"
      by simp
    from Some have "\<not> (\<forall>z\<in>set xs. \<not> P z)"
      by (simp add: mostRecent_None_iff [symmetric])
    then obtain z where z: "z \<in> set xs" "P z" by blast
    have "(\<exists>pre post. x # xs = pre @ t # post \<and> P t \<and> (\<forall>y\<in>set post. \<not> P y))
          \<longleftrightarrow> (\<exists>pre post. xs = pre @ t # post \<and> P t \<and> (\<forall>x\<in>set post. \<not> P x))"
    proof
      assume "\<exists>pre post. x # xs = pre @ t # post \<and> P t \<and> (\<forall>y\<in>set post. \<not> P y)"
      then obtain pre post where eq: "x # xs = pre @ t # post" and t: "P t"
        and post: "\<forall>y\<in>set post. \<not> P y" by blast
      show "\<exists>pre post. xs = pre @ t # post \<and> P t \<and> (\<forall>x\<in>set post. \<not> P x)"
      proof (cases pre)
        case Nil
        with eq have "xs = post" by simp
        with z post show ?thesis by blast
      next
        case (Cons a pre')
        with eq have "xs = pre' @ t # post" by simp
        with t post show ?thesis by blast
      qed
    next
      assume "\<exists>pre post. xs = pre @ t # post \<and> P t \<and> (\<forall>x\<in>set post. \<not> P x)"
      then obtain pre post where "xs = pre @ t # post" and t: "P t"
        and post: "\<forall>y\<in>set post. \<not> P y" by blast
      then have "x # xs = (x # pre) @ t # post" by simp
      with t post show "\<exists>pre post. x # xs = pre @ t # post \<and> P t \<and> (\<forall>y\<in>set post. \<not> P y)"
        by blast
    qed
    with Some iff show ?thesis by (simp add: mostRecent_Cons)
  qed
qed


text \<open>
  Claim C1. In every traversal of a candidate list, started with the empty context,
  the records collected so far (all of them when the loop completes, those before the
  throw when it aborts) belong, in order, to the leaves of the list, and the record of
  a leaf has as \<open>order\<close> the most recent order marker strictly before that leaf and as
  \<open>family\<close> the most recent family marker strictly before it; a field is absent
  (\<open>None\<close>) when no marker of its kind comes before the leaf. When the loop completes
  there is one record for each leaf, and \<open>getBirdsData\<close> returns exactly these.
\<close>

theorem context_carry:
  assumes "forOf toUpperCase web (initial listing) items = (c, st')"
  shows "prefix (map contextOf (birdsData st'))
           (map (\<lambda>i. (mostRecent (isOrderMarker toUpperCase) (take i items),
                       mostRecent (isFamilyMarker toUpperCase) (take i items)))
              (leafPositions toUpperCase items))
       \<and> (\<forall>k<length (birdsData st').
            k < length (leafPositions toUpperCase items)
            \<and> order (birdsData st' ! k) =
                mostRecent (isOrderMarker toUpperCase)
                  (take (leafPositions toUpperCase items ! k) items)
            \<and> family (birdsData st' ! k) =
                mostRecent (isFamilyMarker toUpperCase)
                  (take (leafPositions toUpperCase items ! k) items))
       \<and> (c = Normal \<longrightarrow>
            map contextOf (birdsData st') =
              map (\<lambda>i. (mostRecent (isOrderMarker toUpperCase) (take i items),
                          mostRecent (isFamilyMarker toUpperCase) (take i items)))
                (leafPositions toUpperCase items)
            \<and> length (birdsData st') = length (leafPositions toUpperCase items))
       \<and> (c = Normal \<and> items = getItems listing \<longrightarrow>
            getBirdsData toUpperCase web listing = Inr (birdsData st'))"
proof -
  let ?f = "\<lambda>i. (mostRecent (isOrderMarker toUpperCase) (take i items),
                  mostRecent (isFamilyMarker toUpperCase) (take i items))"
  let ?lp = "leafPositions toUpperCase items"
  have start: "map contextOf (birdsData (initial listing)) @
      carriedContexts toUpperCase (birdClassification (initial listing)) items = map ?f ?lp"
    by (simp add: initial_def carriedContexts_def carried_None)
  from forOf_contexts [OF assms]
  have pre: "prefix (map contextOf (birdsData st')) (map ?f ?lp)"
    and full: "c = Normal \<longrightarrow> map contextOf (birdsData st') = map ?f ?lp"
    unfolding start by simp_all
  have each: "k < length ?lp \<and> order (birdsData st' ! k) = fst (?f (?lp ! k))
      \<and> family (birdsData st' ! k) = snd (?f (?lp ! k))"
    if k: "k < length (birdsData st')" for k
  proof -
    from pre have le: "length (birdsData st') \<le> length ?lp"
      using prefix_length_le by fastforce
    from pre obtain rest where eq: "map ?f ?lp = map contextOf (birdsData st') @ rest"
      by (auto simp: prefix_def)
    from k have "map contextOf (birdsData st') ! k = contextOf (birdsData st' ! k)"
      by simp
    moreover from k have "(map contextOf (birdsData st') @ rest) ! k =
      map contextOf (birdsData st') ! k"
      by (simp add: nth_append)
    moreover from k le have "map ?f ?lp ! k = ?f (?lp ! k)"
      by simp
    ultimately have "contextOf (birdsData st' ! k) = ?f (?lp ! k)"
      using eq by simp
    with k le show ?thesis by (simp add: contextOf_def)
  qed
  have len: "c = Normal \<longrightarrow> length (birdsData st') = length ?lp"
  proof
    assume "c = Normal"
    with full have "length (map contextOf (birdsData st')) = length (map ?f ?lp)" by simp
    then show "length (birdsData st') = length ?lp" by simp
  qed
  have ret: "c = Normal \<and> items = getItems listing \<longrightarrow>
      getBirdsData toUpperCase web listing = Inr (birdsData st')"
    using assms by (auto simp: getBirdsData_def)
  from pre each full len ret show ?thesis by simp
qed

theorem context_carry_witness:
  "forOf upperBasic goodSite (initial noDoc) sampleItems = (Normal, sampleFinal)
   \<and> leafPositions upperBasic sampleItems = [0, 3]
   \<and> map contextOf (birdsData sampleFinal) = [(None, None), (Some orderToken, Some familyToken)]
   \<and> mostRecent (isOrderMarker upperBasic) (take 3 sampleItems) = Some orderToken
   \<and> mostRecent (isFamilyMarker upperBasic) (take 3 sampleItems) = Some familyToken
   \<and> mostRecent (isOrderMarker upperBasic) (take 0 sampleItems) = None"
proof -
  have run: "forOf upperBasic goodSite (initial noDoc) sampleItems = (Normal, sampleFinal)"
    by code_simp
  have lp: "leafPositions upperBasic sampleItems = [0, 3]"
    by code_simp
  have m0: "mostRecent (isOrderMarker upperBasic) (take 0 sampleItems) = None"
    "mostRecent (isFamilyMarker upperBasic) (take 0 sampleItems) = None"
    by (simp_all add: mostRecent_def)
  have m3: "mostRecent (isOrderMarker upperBasic) (take 3 sampleItems) = Some orderToken"
    "mostRecent (isFamilyMarker upperBasic) (take 3 sampleItems) = Some familyToken"
    by code_simp+
  from context_carry [of upperBasic goodSite noDoc sampleItems Normal sampleFinal, OF run]
  have "map contextOf (birdsData sampleFinal) =
      map (\<lambda>i. (mostRecent (isOrderMarker upperBasic) (take i sampleItems),
                 mostRecent (isFamilyMarker upperBasic) (take i sampleItems)))
        (leafPositions upperBasic sampleItems)"
    by blast
  with lp m0 m3 have "map contextOf (birdsData sampleFinal) =
      [(None, None), (Some orderToken, Some familyToken)]"
    by simp
  with run lp m0 m3 show ?thesis by simp
qed

section \<open>The matcher\<close>

lemma in_class_single: "in_class [(c, c)] x \<longleftrightarrow> x = c"
  by (auto simp: in_class_def)

lemma ends_Chr:
  "ends (Chr c) s = (case s of [] \<Rightarrow> [] | x # t \<Rightarrow> if x = c then [t] else [])"
  by (simp add: Chr_def in_class_single split: list.splits)

lemma ends_Eps: "ends Eps = (\<lambda>s. [s])"
  by (rule ext) simp

lemma ends_seqs_Cons: "ends (seqs (r # rs)) s = concat (map (ends (seqs rs)) (ends r s))"
  by (cases rs) (simp_all add: ends_Eps)

lemma mem_ends_seqs_Cons:
  "t \<in> set (ends (seqs (r # rs)) s) \<longleftrightarrow> (\<exists>u\<in>set (ends r s). t \<in> set (ends (seqs rs) u))"
  by (auto simp: ends_seqs_Cons)

lemma mem_ends_Star:
  "t \<in> set (ends (Star g r) s) \<longleftrightarrow>
     t = s \<or> (\<exists>u\<in>set (ends r s). length u < length s \<and> t \<in> set (ends (Star g r) u))"
  by (subst ends.simps(4)) (auto simp add: Let_def simp del: ends.simps(4))

declare ends.simps(4) [simp del]

lemma mem_ends_Star_self: "s \<in> set (ends (Star g r) s)"
  by (simp add: mem_ends_Star [of s g r s])

lemma mem_ends_Opt_self: "s \<in> set (ends (Opt r) s)"
  by simp

lemma mem_ends_Star_Cls:
  "\<forall>c\<in>set seg. in_class cs c \<Longrightarrow> rest \<in> set (ends (Star g (Cls cs)) (seg @ rest))"
proof (induction seg)
  case Nil
  show ?case by (simp add: mem_ends_Star_self)
next
  case (Cons c seg)
  then have "rest \<in> set (ends (Star g (Cls cs)) (seg @ rest))" by simp
  with Cons.prems show ?case
    by (simp add: mem_ends_Star [of rest g "Cls cs" "c # seg @ rest"])
qed

lemma mem_ends_Star_Cls_dest:
  "t \<in> set (ends (Star g (Cls cs)) s) \<Longrightarrow> \<exists>seg. s = seg @ t \<and> (\<forall>c\<in>set seg. in_class cs c)"
proof (induction s)
  case Nil
  then show ?case by (simp add: mem_ends_Star [of t g "Cls cs" "[]"])
next
  case (Cons c s)
  show ?case
  proof (cases "t = c # s")
    case True
    then show ?thesis by simp
  next
    case False
    with Cons.prems have c: "in_class cs c" and "t \<in> set (ends (Star g (Cls cs)) s)"
      by (auto simp: mem_ends_Star [of t g "Cls cs" "c # s"] split: if_splits)
    with Cons.IH obtain seg where "s = seg @ t" "\<forall>c\<in>set seg. in_class cs c" by blast
    with c have "c # s = (c # seg) @ t \<and> (\<forall>x\<in>set (c # seg). in_class cs x)" by simp
    then show ?thesis by blast
  qed
qed

lemma mem_ends_Plus_Cls:
  "t \<in> set (ends (Plus g (Cls cs)) s) \<longleftrightarrow>
     (\<exists>c seg. s = c # seg @ t \<and> in_class cs c \<and> (\<forall>x\<in>set seg. in_class cs x))"
proof
  assume "t \<in> set (ends (Plus g (Cls cs)) s)"
  then obtain c u where s: "s = c # u" and c: "in_class cs c"
    and t: "t \<in> set (ends (Star g (Cls cs)) u)"
    by (auto simp: Plus_def split: list.splits if_splits)
  from mem_ends_Star_Cls_dest [OF t] obtain seg where "u = seg @ t" "\<forall>x\<in>set seg. in_class cs x"
    by blast
  with s c show "\<exists>c seg. s = c # seg @ t \<and> in_class cs c \<and> (\<forall>x\<in>set seg. in_class cs x)"
    by blast
next
  assume "\<exists>c seg. s = c # seg @ t \<and> in_class cs c \<and> (\<forall>x\<in>set seg. in_class cs x)"
  then obtain c seg where s: "s = c # seg @ t" and c: "in_class cs c"
    and seg: "\<forall>x\<in>set seg. in_class cs x" by blast
  from mem_ends_Star_Cls [OF seg, of t g] s c
  show "t \<in> set (ends (Plus g (Cls cs)) s)"
    by (simp add: Plus_def)
qed

lemma exec_Nil: "exec r [] = (case ends r [] of [] \<Rightarrow> None | e # _ \<Rightarrow> Some [])"
  by (subst exec.simps) (simp del: exec.simps split: list.splits)

lemma exec_Cons:
  "exec r (c # s) =
     (case ends r (c # s) of [] \<Rightarrow> exec r s | e # _ \<Rightarrow> Some (take (length (c # s) - length e) (c # s)))"
  by (subst exec.simps) (simp del: exec.simps split: list.splits)

declare exec.simps [simp del]

lemma exec_None_iff: "exec r s = None \<longleftrightarrow> (\<forall>k\<le>length s. ends r (drop k s) = [])"
proof (induction s)
  case Nil
  then show ?case by (simp add: exec_Nil split: list.splits)
next
  case (Cons c s)
  have "(\<forall>k\<le>length (c # s). ends r (drop k (c # s)) = []) \<longleftrightarrow>
        ends r (c # s) = [] \<and> (\<forall>k\<le>length s. ends r (drop k s) = [])"
  proof
    assume all: "\<forall>k\<le>length (c # s). ends r (drop k (c # s)) = []"
    then have "ends r (drop 0 (c # s)) = []" by blast
    moreover have "ends r (drop k s) = []" if "k \<le> length s" for k
      using all that by (auto dest: spec [of _ "Suc k"])
    ultimately show "ends r (c # s) = [] \<and> (\<forall>k\<le>length s. ends r (drop k s) = [])" by simp
  next
    assume h: "ends r (c # s) = [] \<and> (\<forall>k\<le>length s. ends r (drop k s) = [])"
    show "\<forall>k\<le>length (c # s). ends r (drop k (c # s)) = []"
    proof (intro allI impI)
      fix k assume "k \<le> length (c # s)"
      with h show "ends r (drop k (c # s)) = []" by (cases k) simp_all
    qed
  qed
  with Cons.IH show ?case by (simp add: exec_Cons split: list.splits)
qed

lemma matches_iff: "matches r s \<longleftrightarrow> (\<exists>pre suf. s = pre @ suf \<and> ends r suf \<noteq> [])"
proof
  assume "matches r s"
  then obtain k where "k \<le> length s" "ends r (drop k s) \<noteq> []"
    by (auto simp: matches_def exec_None_iff)
  then have "s = take k s @ drop k s \<and> ends r (drop k s) \<noteq> []" by simp
  then show "\<exists>pre suf. s = pre @ suf \<and> ends r suf \<noteq> []" by blast
next
  assume "\<exists>pre suf. s = pre @ suf \<and> ends r suf \<noteq> []"
  then obtain pre suf where "s = pre @ suf" "ends r suf \<noteq> []" by blast
  then have "length pre \<le> length s \<and> ends r (drop (length pre) s) \<noteq> []" by simp
  then have "\<exists>k\<le>length s. ends r (drop k s) \<noteq> []" by (rule exI)
  then show "matches r s" by (simp add: matches_def exec_None_iff)
qed

lemma exec_Some_iff: "(\<exists>m. exec r s = Some m) \<longleftrightarrow> matches r s"
  by (simp add: matches_def)

lemma ends_nonempty_iff: "ends r s \<noteq> [] \<longleftrightarrow> (\<exists>t. t \<in> set (ends r s))"
  by (cases "ends r s") auto

lemma mem_ends_lit: "t \<in> set (ends (lit str) s) \<longleftrightarrow> s = ascii str @ t"
proof (induction str arbitrary: s)
  case Nil
  show ?case by (auto simp: lit_def ascii_def)
next
  case (Cons c str)
  have "t \<in> set (ends (lit (c # str)) s) \<longleftrightarrow>
        (\<exists>u\<in>set (ends (Chr (of_char c)) s). t \<in> set (ends (lit str) u))"
    by (simp add: lit_def mem_ends_seqs_Cons)
  also have "\<dots> \<longleftrightarrow> (\<exists>u. s = of_char c # u \<and> u = ascii str @ t)"
    by (auto simp: ends_Chr Cons.IH split: list.splits)
  finally show ?case by (auto simp: ascii_def)
qed

lemma mem_ends_Seq:
  "t \<in> set (ends (Seq r1 r2) s) \<longleftrightarrow> (\<exists>u\<in>set (ends r1 s). t \<in> set (ends r2 u))"
  by auto

section \<open>When the name patterns match\<close>

lemma rus_tail:
  "u \<in> set (ends (seqs [Star True (Cls whitespace), Star True (Cls cyrillic_space),
      Opt (seqs [Chr 0x28, Plus True (Cls cyrillic_space), Chr 0x29])]) u)"
  unfolding seqs.simps mem_ends_Seq
  by (blast intro: mem_ends_Star_self mem_ends_Opt_self)

lemma ends_regExpRusName:
  "ends regExpRusName s \<noteq> [] \<longleftrightarrow> (\<exists>c t. s = c # t \<and> in_class cyrillic_hyphen c)"
proof
  assume "ends regExpRusName s \<noteq> []"
  then obtain t u where "u \<in> set (ends (Plus True (Cls cyrillic_hyphen)) s)"
    unfolding ends_nonempty_iff regExpRusName_def mem_ends_seqs_Cons by blast
  then show "\<exists>c t. s = c # t \<and> in_class cyrillic_hyphen c"
    by (auto simp: mem_ends_Plus_Cls)
next
  assume "\<exists>c t. s = c # t \<and> in_class cyrillic_hyphen c"
  then obtain c t where "s = c # [] @ t" "in_class cyrillic_hyphen c" by auto
  then have "t \<in> set (ends (Plus True (Cls cyrillic_hyphen)) s)"
    unfolding mem_ends_Plus_Cls by (intro exI [of _ c] exI [of _ "[]"]) simp
  with rus_tail [of t] show "ends regExpRusName s \<noteq> []"
    unfolding ends_nonempty_iff regExpRusName_def mem_ends_seqs_Cons [of _ "Plus True (Cls cyrillic_hyphen)"]
    by blast
qed

lemma matches_regExpRusName:
  "matches regExpRusName title \<longleftrightarrow> (\<exists>c\<in>set title. in_class cyrillic_hyphen c)"
proof
  assume "matches regExpRusName title"
  then obtain pre c t where "title = pre @ c # t" "in_class cyrillic_hyphen c"
    by (auto simp: matches_iff ends_regExpRusName)
  then show "\<exists>c\<in>set title. in_class cyrillic_hyphen c" by auto
next
  assume "\<exists>c\<in>set title. in_class cyrillic_hyphen c"
  then obtain c where "c \<in> set title" and c: "in_class cyrillic_hyphen c" by blast
  then obtain pre t where "title = pre @ c # t" by (auto simp: in_set_conv_decomp)
  with c have "title = pre @ (c # t) \<and> ends regExpRusName (c # t) \<noteq> []"
    by (simp add: ends_regExpRusName)
  then show "matches regExpRusName title" unfolding matches_iff by blast
qed

lemma mem_ends_Opt_Cls:
  "v \<in> set (ends (Opt (Cls cs)) u) \<longleftrightarrow> v = u \<or> (\<exists>w. u = w # v \<and> in_class cs w)"
  by (cases u) auto

lemma mem_ends_regExpLatName:
  "t \<in> set (ends regExpLatName s) \<longleftrightarrow>
     (\<exists>u\<in>set (ends (Plus True (Cls latin)) s).
        \<exists>v\<in>set (ends (Opt (Cls whitespace)) u). t \<in> set (ends (Plus True (Cls latin)) v))"
  by (simp only: regExpLatName_def seqs.simps mem_ends_Seq)

lemma matches_regExpLatName:
  "matches regExpLatName title \<longleftrightarrow>
     (\<exists>pre a b post. title = pre @ a # b # post \<and> in_class latin a \<and> in_class latin b)
   \<or> (\<exists>pre a w b post. title = pre @ a # w # b # post
         \<and> in_class latin a \<and> in_class whitespace w \<and> in_class latin b)"
  (is "?lhs \<longleftrightarrow> ?adj \<or> ?sep")
proof
  assume ?lhs
  then obtain pre suf t where title: "title = pre @ suf" and t: "t \<in> set (ends regExpLatName suf)"
    by (auto simp: matches_iff ends_nonempty_iff)
  from t obtain u v where u: "u \<in> set (ends (Plus True (Cls latin)) suf)"
    and opt: "v \<in> set (ends (Opt (Cls whitespace)) u)"
    and v: "t \<in> set (ends (Plus True (Cls latin)) v)"
    unfolding mem_ends_regExpLatName by blast
  from opt have uv: "v = u \<or> (\<exists>w. u = w # v \<and> in_class whitespace w)"
    by (simp only: mem_ends_Opt_Cls)
  from u obtain a seg where suf: "suf = a # seg @ u" and a: "in_class latin a"
    and seg: "\<forall>x\<in>set seg. in_class latin x"
    unfolding mem_ends_Plus_Cls by blast
  from v obtain b seg2 where vb: "v = b # seg2 @ t" and b: "in_class latin b"
    unfolding mem_ends_Plus_Cls by blast
  obtain ys a' where last: "a # seg = ys @ [a']"
    by (metis append_butlast_last_id list.distinct(1))
  with a seg have a': "in_class latin a'"
    by (metis in_set_conv_decomp list.set_intros(1) set_ConsD)
  from suf last have suf': "suf = ys @ a' # u" by simp
  from uv show "?adj \<or> ?sep"
  proof
    assume "v = u"
    with title suf' vb have "title = (pre @ ys) @ a' # b # (seg2 @ t)" by simp
    with a' b have ?adj by blast
    then show ?thesis ..
  next
    assume "\<exists>w. u = w # v \<and> in_class whitespace w"
    then obtain w where "u = w # v" and w: "in_class whitespace w" by blast
    with title suf' vb have "title = (pre @ ys) @ a' # w # b # (seg2 @ t)" by simp
    with a' w b have ?sep by blast
    then show ?thesis ..
  qed
next
  have plus: "rest \<in> set (ends (Plus True (Cls latin)) (c # rest))" if "in_class latin c" for c rest
    unfolding mem_ends_Plus_Cls using that by (intro exI [of _ c] exI [of _ "[]"]) simp
  assume "?adj \<or> ?sep"
  then show ?lhs
  proof
    assume ?adj
    then obtain pre a b post where title: "title = pre @ a # b # post"
      and a: "in_class latin a" and b: "in_class latin b" by blast
    from plus [OF a, of "b # post"] mem_ends_Opt_self [of "b # post" "Cls whitespace"]
      plus [OF b, of post]
    have "post \<in> set (ends regExpLatName (a # b # post))"
      unfolding mem_ends_regExpLatName by blast
    then have "title = pre @ (a # b # post) \<and> ends regExpLatName (a # b # post) \<noteq> []"
      using title by auto
    then show ?lhs unfolding matches_iff by blast
  next
    assume ?sep
    then obtain pre a w b post where title: "title = pre @ a # w # b # post"
      and a: "in_class latin a" and w: "in_class whitespace w" and b: "in_class latin b"
      by blast
    from w have "b # post \<in> set (ends (Opt (Cls whitespace)) (w # b # post))"
      by (simp only: mem_ends_Opt_Cls) blast
    with plus [OF a, of "w # b # post"] plus [OF b, of post]
    have "post \<in> set (ends regExpLatName (a # w # b # post))"
      unfolding mem_ends_regExpLatName by blast
    then have "title = pre @ (a # w # b # post) \<and> ends regExpLatName (a # w # b # post) \<noteq> []"
      using title by auto
    then show ?lhs unfolding matches_iff by blast
  qed
qed


text \<open>
  Claim C8. For every heading text, each name extraction returns a value exactly when
  its pattern has a match in the heading, and throws (a TypeError, from reading
  \<open>[0]\<close> of \<open>null\<close>) when it has none. The Russian-name pattern has a match exactly
  when the heading holds a Cyrillic letter of the pattern's first class or a hyphen;
  the Latin-name pattern exactly when it holds two Latin letters that are adjacent or
  separated by one white-space character.
\<close>

theorem name_extraction_needs_match:
  assumes "article_h1 doc = Some title"
  shows "((\<exists>v. extractRusName doc = Inr v) \<longleftrightarrow> matches regExpRusName title)
       \<and> (\<not> matches regExpRusName title \<longrightarrow> extractRusName doc = Inl TypeError)
       \<and> (matches regExpRusName title \<longleftrightarrow> (\<exists>c\<in>set title. in_class cyrillic_hyphen c))
       \<and> ((\<exists>v. extractLatName doc = Inr v) \<longleftrightarrow> matches regExpLatName title)
       \<and> (\<not> matches regExpLatName title \<longrightarrow> extractLatName doc = Inl TypeError)
       \<and> (matches regExpLatName title \<longleftrightarrow>
            (\<exists>pre a b post. title = pre @ a # b # post \<and> in_class latin a \<and> in_class latin b)
          \<or> (\<exists>pre a w b post. title = pre @ a # w # b # post
                \<and> in_class latin a \<and> in_class whitespace w \<and> in_class latin b))"
proof -
  have rus: "(\<exists>v. extractRusName doc = Inr v) \<longleftrightarrow> matches regExpRusName title"
    using assms by (auto simp: extractRusName_def matches_def split: option.splits)
  have rus_err: "\<not> matches regExpRusName title \<longrightarrow> extractRusName doc = Inl TypeError"
    using assms by (simp add: extractRusName_def matches_def)
  have lat: "(\<exists>v. extractLatName doc = Inr v) \<longleftrightarrow> matches regExpLatName title"
    using assms by (auto simp: extractLatName_def matches_def split: option.splits)
  have lat_err: "\<not> matches regExpLatName title \<longrightarrow> extractLatName doc = Inl TypeError"
    using assms by (simp add: extractLatName_def matches_def)
  from rus rus_err lat lat_err matches_regExpRusName [of title] matches_regExpLatName [of title]
  show ?thesis by blast
qed

theorem name_extraction_needs_match_witness:
  "article_h1 digitsDoc = Some (ascii ''123'')
   \<and> \<not> matches regExpRusName (ascii ''123'') \<and> \<not> matches regExpLatName (ascii ''123'')
   \<and> extractRusName digitsDoc = Inl TypeError \<and> extractLatName digitsDoc = Inl TypeError
   \<and> article_h1 leafDoc = Some chomgaHeading
   \<and> matches regExpRusName chomgaHeading \<and> matches regExpLatName chomgaHeading
   \<and> extractRusName leafDoc \<noteq> Inl TypeError \<and> extractLatName leafDoc \<noteq> Inl TypeError"
proof -
  have h: "article_h1 digitsDoc = Some (ascii ''123'')"
    by (simp add: digitsDoc_def noDoc_def)
  have no: "\<not> matches regExpRusName (ascii ''123'')" "\<not> matches regExpLatName (ascii ''123'')"
    by code_simp+
  have g: "article_h1 leafDoc = Some chomgaHeading"
    by (simp add: leafDoc_def)
  have yes: "matches regExpRusName chomgaHeading" "matches regExpLatName chomgaHeading"
    by code_simp+
  from name_extraction_needs_match [OF h] no
  have bad: "extractRusName digitsDoc = Inl TypeError \<and> extractLatName digitsDoc = Inl TypeError"
    by blast
  from name_extraction_needs_match [OF g] yes
  have "(\<exists>v. extractRusName leafDoc = Inr v) \<and> (\<exists>v. extractLatName leafDoc = Inr v)"
    by blast
  then have good: "extractRusName leafDoc \<noteq> Inl TypeError \<and> extractLatName leafDoc \<noteq> Inl TypeError"
    by auto
  from h no g yes bad good show ?thesis by blast
qed

section \<open>The leaf pattern\<close>

lemma prefix_before_separator:
  assumes "prefix p (seg @ c # rest)" and "c \<notin> set p"
  shows "prefix p seg"
proof -
  from assms(1) have "prefix p seg \<or> (\<exists>us. p = seg @ us \<and> prefix us (c # rest))"
    by (simp add: prefix_append)
  then show ?thesis
  proof
    assume "prefix p seg"
    then show ?thesis .
  next
    assume "\<exists>us. p = seg @ us \<and> prefix us (c # rest)"
    then obtain us where p: "p = seg @ us" and us: "prefix us (c # rest)" by blast
    show ?thesis
    proof (cases us)
      case Nil
      with p show ?thesis by simp
    next
      case (Cons x xs)
      with us have "x = c" by simp
      with p Cons assms(2) show ?thesis by simp
    qed
  qed
qed

lemma ends_lit_empty:
  assumes "\<not> prefix (ascii str) s"
  shows "ends (lit str) s = []"
proof (rule ccontr)
  assume "ends (lit str) s \<noteq> []"
  then obtain t where "t \<in> set (ends (lit str) s)"
    unfolding ends_nonempty_iff by blast
  then have "s = ascii str @ t" by (simp only: mem_ends_lit)
  with assms show False by simp
qed

lemma mem_ends_Plus_segment:
  assumes "seg \<noteq> []" and "\<forall>c\<in>set seg. in_class cs c"
  shows "rest \<in> set (ends (Plus g (Cls cs)) (seg @ rest))"
proof -
  from assms(1) obtain c seg' where "seg = c # seg'" by (cases seg) auto
  with assms(2) show ?thesis
    unfolding mem_ends_Plus_Cls by (intro exI [of _ c] exI [of _ seg']) simp
qed

lemma mem_ends_Chr: "rest \<in> set (ends (Chr c) (c # rest))"
  by (simp add: ends_Chr)

lemma leafPattern_suffix:
  assumes "seg1 \<noteq> []" and "\<forall>c\<in>set seg1. in_class lower c"
    and "\<not> prefix (ascii ''reference'') seg1" and "\<not> prefix (ascii ''en'') seg1"
    and "seg2 \<noteq> []" and "\<forall>c\<in>set seg2. in_class word_class c"
    and "seg3 \<noteq> []" and "\<forall>c\<in>set seg3. in_class lower_hyphen_digit c"
  shows "[] \<in> set (ends leafPattern
           (0x2F # seg1 @ 0x2F # seg2 @ 0x2F # seg3 @ [0x2F]))"
proof -
  let ?s5 = "[0x2F :: jschar]"
  let ?s4 = "0x2F # seg3 @ ?s5"
  let ?s3 = "0x2F # seg2 @ ?s4"
  let ?s1 = "seg1 @ ?s3"
  have look: "?s1 \<in> set (ends (NegLook (Alt (lit ''reference'') (lit ''en''))) ?s1)"
  proof -
    have "\<not> prefix (ascii ''reference'') ?s1"
      using prefix_before_separator [of "ascii ''reference''" seg1 "0x2F"] assms(3)
      by (auto simp: ascii_def)
    moreover have "\<not> prefix (ascii ''en'') ?s1"
      using prefix_before_separator [of "ascii ''en''" seg1 "0x2F"] assms(4)
      by (auto simp: ascii_def)
    ultimately show ?thesis by (simp add: ends_lit_empty)
  qed
  have e: "[] \<in> set (ends Eol [])" "[] \<in> set (ends Eps [])" by simp_all
  show ?thesis
    unfolding leafPattern_def mem_ends_seqs_Cons
    using mem_ends_Chr [of ?s1 "0x2F"] look
      mem_ends_Plus_segment [OF assms(1,2), of ?s3 True]
      mem_ends_Chr [of "seg2 @ ?s4" "0x2F"]
      mem_ends_Plus_segment [OF assms(5,6), of ?s4 True]
      mem_ends_Chr [of "seg3 @ ?s5" "0x2F"]
      mem_ends_Plus_segment [OF assms(7,8), of ?s5 False]
      mem_ends_Chr [of "[]" "0x2F"] e
    by (simp only: seqs.simps) blast
qed

text \<open>
  Claim C3, as stated, fails: the path \<open>/enot/vid/seryj-enot/\<close> has a first segment
  that is neither \<open>reference\<close> nor \<open>en\<close>, a word segment and a segment of small
  letters and a hyphen, yet the leaf pattern does not match it and the anchor is
  dropped. The lookahead \<open>(?!reference|en)\<close> rejects every segment that begins with
  \<open>reference\<close> or \<open>en\<close>.
\<close>

theorem enot_url_kept_counterexample:
  "enotUrl = ascii ''https://birds.peipsi.org'' @ 0x2F # ascii ''enot'' @ 0x2F # ascii ''vid''
               @ 0x2F # ascii ''seryj-enot'' @ [0x2F]
   \<and> ascii ''enot'' \<noteq> ascii ''reference'' \<and> ascii ''enot'' \<noteq> ascii ''en''
   \<and> list_all (in_class word_class) (ascii ''vid'')
   \<and> list_all (in_class lower_hyphen_digit) (ascii ''seryj-enot'')
   \<and> href enotAnchor = enotUrl
   \<and> \<not> matches leafPattern enotUrl
   \<and> anchorItem enotAnchor = None
   \<and> getItems (noDoc\<lparr>anchors := [enotAnchor]\<rparr>) = []"
  by code_simp


text \<open>
  Claim C3, amended. An anchor whose URL ends with a slash, a segment of one or more
  small Latin letters that does not begin with \<open>reference\<close> or \<open>en\<close>, a slash, a
  word segment, a slash, a segment of small letters, digits and hyphens, and a slash
  is kept by link discovery as a candidate whose token is the URL itself.
\<close>

theorem leaf_url_kept:
  assumes "href a = pre @ 0x2F # seg1 @ 0x2F # seg2 @ 0x2F # seg3 @ [0x2F]"
    and "seg1 \<noteq> []" and "\<forall>c\<in>set seg1. in_class lower c"
    and "\<not> prefix (ascii ''reference'') seg1" and "\<not> prefix (ascii ''en'') seg1"
    and "seg2 \<noteq> []" and "\<forall>c\<in>set seg2. in_class word_class c"
    and "seg3 \<noteq> []" and "\<forall>c\<in>set seg3. in_class lower_hyphen_digit c"
  shows "matches leafPattern (href a)
       \<and> anchorItem a = Some (href a)
       \<and> (a \<in> set (anchors listing) \<longrightarrow> href a \<in> set (getItems listing))"
proof -
  from leafPattern_suffix [OF assms(2-9)]
  have "ends leafPattern (0x2F # seg1 @ 0x2F # seg2 @ 0x2F # seg3 @ [0x2F]) \<noteq> []"
    by auto
  with assms(1) have m: "matches leafPattern (href a)"
    unfolding matches_iff by blast
  then have item: "anchorItem a = Some (href a)"
    by (simp add: anchorItem_def)
  from m item getItems_member [of a listing "href a"] show ?thesis by simp
qed

theorem leaf_url_kept_witness:
  "href leafAnchor = leafUrl
   \<and> leafUrl = ascii ''https://birds.peipsi.org'' @ 0x2F # ascii ''poganki'' @ 0x2F #
       ascii ''chomga'' @ 0x2F # ascii ''bolshaya-poganka'' @ [0x2F]
   \<and> matches leafPattern leafUrl
   \<and> anchorItem leafAnchor = Some leafUrl
   \<and> leafUrl \<in> set (getItems (noDoc\<lparr>anchors := [leafAnchor]\<rparr>))"
proof -
  have h: "href leafAnchor = leafUrl"
    by (simp add: leafAnchor_def)
  have u: "leafUrl = ascii ''https://birds.peipsi.org'' @ 0x2F # ascii ''poganki'' @ 0x2F #
       ascii ''chomga'' @ 0x2F # ascii ''bolshaya-poganka'' @ [0x2F]"
    by (simp add: leafUrl_def ascii_def)
  have s1: "ascii ''poganki'' \<noteq> []" "\<forall>c\<in>set (ascii ''poganki''). in_class lower c"
    "\<not> prefix (ascii ''reference'') (ascii ''poganki'')"
    "\<not> prefix (ascii ''en'') (ascii ''poganki'')"
    by (simp_all add: ascii_def in_class_def lower_def)
  have s2: "ascii ''chomga'' \<noteq> []" "\<forall>c\<in>set (ascii ''chomga''). in_class word_class c"
    by (simp_all add: ascii_def in_class_def word_class_def)
  have s3: "ascii ''bolshaya-poganka'' \<noteq> []"
    "\<forall>c\<in>set (ascii ''bolshaya-poganka''). in_class lower_hyphen_digit c"
    by (simp_all add: ascii_def in_class_def lower_hyphen_digit_def)
  have a: "leafAnchor \<in> set (anchors (noDoc\<lparr>anchors := [leafAnchor]\<rparr>))"
    by simp
  from leaf_url_kept [of leafAnchor "ascii ''https://birds.peipsi.org''" "ascii ''poganki''"
      "ascii ''chomga''" "ascii ''bolshaya-poganka''" "noDoc\<lparr>anchors := [leafAnchor]\<rparr>",
      OF _ s1 s2 s3] h u a
  show ?thesis by simp
qed

end
